theory Spec2Isabelle
  imports Main
begin

section \<open>The builder: TemplateStack (test\_stack.js)\<close>

subsection \<open>Values and objects\<close>

text \<open>
  The builder handles JavaScript values: strings, numbers (the numeric type tags),
  \<open>null\<close>, \<open>undefined\<close> and objects. An object has the fields the builder reads and
  writes: \<open>children\<close>, \<open>type\<close>, \<open>id\<close>, \<open>tagName\<close>, \<open>attributes\<close>, \<open>isOpen\<close>,
  \<open>value\<close> and \<open>text\<close>. A field that is absent reads as \<open>undefined\<close>: \<open>None\<close> for the
  two array fields and for \<open>id\<close>, \<open>Undefined\<close> for the others, \<open>False\<close> for \<open>isOpen\<close>.
  An address (\<open>id\<close>) is a string or absent.
\<close>

datatype 'i obj = JSObj
  (children: "'i list option")
  (otype: 'i)
  (oid: "string option")
  (tagName: 'i)
  (attributes: "'i list option")
  (isOpen: bool)
  (ovalue: 'i)
  (otext: 'i)

datatype item = Undefined | Null | Num nat | Str string | Obj "item obj"

type_synonym frame = "item obj"

text \<open>The object literal \<open>{}\<close>.\<close>

definition emptyObj :: frame where
  "emptyObj = JSObj None Undefined None Undefined None False Undefined Undefined"

definition set_children :: "item list option \<Rightarrow> frame \<Rightarrow> frame" where
  "set_children cs f =
     JSObj cs (otype f) (oid f) (tagName f) (attributes f) (isOpen f) (ovalue f) (otext f)"

definition set_attributes :: "item list option \<Rightarrow> frame \<Rightarrow> frame" where
  "set_attributes as f =
     JSObj (children f) (otype f) (oid f) (tagName f) as (isOpen f) (ovalue f) (otext f)"

definition set_id :: "string option \<Rightarrow> frame \<Rightarrow> frame" where
  "set_id i f =
     JSObj (children f) (otype f) i (tagName f) (attributes f) (isOpen f) (ovalue f) (otext f)"

definition set_isOpen :: "bool \<Rightarrow> frame \<Rightarrow> frame" where
  "set_isOpen b f =
     JSObj (children f) (otype f) (oid f) (tagName f) (attributes f) b (ovalue f) (otext f)"

text \<open>
  \<open>typeof x === 'string'\<close>, and \<open>a === b\<close>. Strict equality compares primitives by
  value: a comparison with a constant, as in \<open>type === types.ELEMENT\<close> or
  \<open>tagName === 'p'\<close>, is the equality of the two values. Two objects are equal when
  they are one and the same object, which a value does not record: for two objects the
  answer is the argument \<open>sameRef\<close>, given by whoever knows the references.
\<close>

fun isString :: "item \<Rightarrow> bool" where
  "isString (Str s) = True"
| "isString x = False"

fun isObject :: "item \<Rightarrow> bool" where
  "isObject (Obj f) = True"
| "isObject x = False"

definition strictEq :: "bool \<Rightarrow> item \<Rightarrow> item \<Rightarrow> bool" where
  "strictEq sameRef a b = (if isObject a \<and> isObject b then sameRef else a = b)"

subsection \<open>Conversion to string\<close>

function string_of_nat :: "nat \<Rightarrow> string" where
  "string_of_nat n =
     (if n < 10 then [''0123456789'' ! n]
      else string_of_nat (n div 10) @ [''0123456789'' ! (n mod 10)])"
  by pat_completeness auto
termination
  by (relation "measure (\<lambda>n. n)") auto

declare string_of_nat.simps [simp del]

fun toStr :: "item \<Rightarrow> string" where
  "toStr Undefined = ''undefined''"
| "toStr Null = ''null''"
| "toStr (Num n) = string_of_nat n"
| "toStr (Str s) = s"
| "toStr (Obj f) = ''[object Object]''"

fun idStr :: "string option \<Rightarrow> string" where
  "idStr None = ''undefined''"
| "idStr (Some s) = s"

subsection \<open>The type tags\<close>

definition INTERPOLATOR :: nat where "INTERPOLATOR = 2"
definition TRIPLE :: nat where "TRIPLE = 3"
definition SECTION :: nat where "SECTION = 4"
definition ELEMENT :: nat where "ELEMENT = 7"
definition PARTIAL :: nat where "PARTIAL = 8"
definition COMMENT :: nat where "COMMENT = 9"
definition CLOSING_TAG :: nat where "CLOSING_TAG = 14"
definition REFERENCE :: nat where "REFERENCE = 30"
definition SECTION_UNLESS :: nat where "SECTION_UNLESS = 51"

lemmas types_defs = INTERPOLATOR_def TRIPLE_def SECTION_def ELEMENT_def PARTIAL_def
  COMMENT_def CLOSING_TAG_def REFERENCE_def SECTION_UNLESS_def

subsection \<open>The builder state\<close>

text \<open>
  \<open>result\<close> and \<open>stack\<close> are arrays: the top of the stack is the last entry. \<open>logged\<close>
  is the sink of \<open>logger.warn\<close>, the messages in the order they were emitted.
\<close>

record TemplateStack =
  startID :: string
  result :: "item list"
  stack :: "frame list"
  logged :: "string list"

text \<open>
  What a call can fail with: the \<open>TypeError\<close> JavaScript throws on reading a property
  of \<open>null\<close> or \<open>undefined\<close>, on pushing to what is not an array, and on assigning to
  an index of a string in strict mode; and, only in the store of the attachment pass
  below, a reference that names nothing.
\<close>

datatype error = TypeError | DanglingReference

definition newTemplateStack :: TemplateStack where
  "newTemplateStack = \<lparr>startID = [], result = [], stack = [], logged = []\<rparr>"

definition warn :: "string \<Rightarrow> TemplateStack \<Rightarrow> TemplateStack" where
  "warn msg s = s\<lparr>logged := logged s @ [msg]\<rparr>"

definition peek :: "TemplateStack \<Rightarrow> frame option" where
  "peek s = (if stack s = [] then None else Some (last (stack s)))"

text \<open>\<open>this.stack.pop()\<close>: the popped frame (\<open>undefined\<close> on an empty stack) and the new state.\<close>

definition popElement :: "TemplateStack \<Rightarrow> frame option \<times> TemplateStack" where
  "popElement s =
     (if stack s = [] then (None, s)
      else (Some (last (stack s)), s\<lparr>stack := butlast (stack s)\<rparr>))"

text \<open>\<open>openElem.children.length\<close> throws when the top frame has no \<open>children\<close>.\<close>

definition getID :: "TemplateStack \<Rightarrow> error + string" where
  "getID s =
     (case peek s of
        Some openElem \<Rightarrow>
          (case children openElem of
             None \<Rightarrow> Inl TypeError
           | Some cs \<Rightarrow> Inr (idStr (oid openElem) @ ''.'' @ string_of_nat (length cs)))
      | None \<Rightarrow> Inr (startID s @ string_of_nat (length (result s))))"

definition openElement :: "TemplateStack \<Rightarrow> item \<Rightarrow> item \<Rightarrow> error + (frame \<times> TemplateStack)" where
  "openElement s type val =
     (case getID s of
        Inl e \<Rightarrow> Inl e
      | Inr i \<Rightarrow>
          (let elem =
                 (if type = Num ELEMENT
                  then JSObj (Some []) type (Some i) val (Some []) True Undefined Undefined
                  else JSObj (Some []) type (Some i) Undefined None False val Undefined)
           in Inr (elem, s\<lparr>stack := stack s @ [elem]\<rparr>)))"

subsection \<open>Node normalization\<close>

text \<open>
  \<open>processObject\<close>: a string is returned as it is; \<open>obj.type\<close> throws on \<open>null\<close> and
  \<open>undefined\<close>; the \<open>switch\<close> builds the normalized node, \<open>{}\<close> when no case matches.
\<close>

definition keepChildren :: "item list option \<Rightarrow> item list option" where
  "keepChildren cs = (case cs of None \<Rightarrow> None | Some xs \<Rightarrow> (if length xs > 0 then Some xs else None))"

definition processFields :: "frame \<Rightarrow> frame" where
  "processFields obj =
     (if otype obj = Num ELEMENT then
        JSObj (keepChildren (children obj)) (Num ELEMENT) None (tagName obj) (attributes obj)
          False Undefined Undefined
      else if otype obj = Str ''comment'' then
        JSObj None (Num COMMENT) None Undefined None False (otext obj) Undefined
      else if otype obj = Num INTERPOLATOR \<or> otype obj = Num TRIPLE \<or> otype obj = Num REFERENCE then
        JSObj None (otype obj) None Undefined None False (ovalue obj) Undefined
      else if otype obj = Num PARTIAL \<or> otype obj = Num SECTION \<or> otype obj = Num SECTION_UNLESS then
        JSObj (keepChildren (children obj)) (otype obj) None Undefined None False (ovalue obj) Undefined
      else if otype obj = Str ''attributename'' \<or> otype obj = Str ''attributevalue''
              \<or> otype obj = Str ''attributeend'' then
        obj
      else emptyObj)"

fun processObject :: "item \<Rightarrow> error + item" where
  "processObject (Str s) = Inr (Str s)"
| "processObject Undefined = Inl TypeError"
| "processObject Null = Inl TypeError"
| "processObject (Num n) = Inr (Obj emptyObj)"
| "processObject (Obj obj) = Inr (Obj (processFields obj))"

subsection \<open>Resolving an object into its parent\<close>

text \<open>
  The loop of \<open>_closeElem\<close> over \<open>obj.children\<close> runs from the last child to the first
  and normalizes each in place; it throws at the first \<open>null\<close> or \<open>undefined\<close> child.
\<close>

fun processChildren :: "item list \<Rightarrow> error + item list" where
  "processChildren [] = Inr []"
| "processChildren (c # cs) =
     (case processChildren cs of
        Inl e \<Rightarrow> Inl e
      | Inr cs' \<Rightarrow> (case processObject c of Inl e \<Rightarrow> Inl e | Inr c' \<Rightarrow> Inr (c' # cs')))"

text \<open>
  \<open>obj.children\<close> throws on \<open>null\<close> and \<open>undefined\<close>, and is \<open>undefined\<close> on a string
  or a number.
\<close>

definition closeChildren :: "item \<Rightarrow> error + item" where
  "closeChildren obj =
     (case obj of
        Undefined \<Rightarrow> Inl TypeError
      | Null \<Rightarrow> Inl TypeError
      | Obj f \<Rightarrow>
          (case children f of
             None \<Rightarrow> Inr obj
           | Some cs \<Rightarrow>
               (if length cs > 0 then
                  (case processChildren cs of
                     Inl e \<Rightarrow> Inl e
                   | Inr cs' \<Rightarrow> Inr (Obj (set_children (Some cs') f)))
                else Inr obj))
      | _ \<Rightarrow> Inr obj)"

text \<open>Combine adjacent strings, or push.\<close>

definition pushOrCombine :: "item list \<Rightarrow> item \<Rightarrow> item list" where
  "pushOrCombine pushingTo obj =
     (case obj of
        Str b \<Rightarrow>
          (if pushingTo = [] then pushingTo @ [obj]
           else (case last pushingTo of
                   Str a \<Rightarrow> butlast pushingTo @ [Str (a @ b)]
                 | _ \<Rightarrow> pushingTo @ [obj]))
      | _ \<Rightarrow> pushingTo @ [obj])"

text \<open>
  \<open>_closeElem\<close> returns the argument as the call leaves it (its children normalized)
  and the new state. With an empty stack the normalized copy goes to \<open>result\<close>;
  otherwise the object itself goes to the top frame's \<open>attributes\<close> (an open
  element) or \<open>children\<close>, and the push throws when that array is missing.
\<close>

definition closeElem :: "TemplateStack \<Rightarrow> item \<Rightarrow> error + (item \<times> TemplateStack)" where
  "closeElem s obj0 =
     (case closeChildren obj0 of
        Inl e \<Rightarrow> Inl e
      | Inr obj \<Rightarrow>
          (case peek s of
             Some topElem \<Rightarrow>
               (if otype topElem = Num ELEMENT \<and> isOpen topElem then
                  (case attributes topElem of
                     None \<Rightarrow> Inl TypeError
                   | Some pushingTo \<Rightarrow>
                       Inr (obj, s\<lparr>stack := butlast (stack s) @
                              [set_attributes (Some (pushOrCombine pushingTo obj)) topElem]\<rparr>))
                else
                  (case children topElem of
                     None \<Rightarrow> Inl TypeError
                   | Some pushingTo \<Rightarrow>
                       Inr (obj, s\<lparr>stack := butlast (stack s) @
                              [set_children (Some (pushOrCombine pushingTo obj)) topElem]\<rparr>)))
           | None \<Rightarrow>
               (case processObject obj of
                  Inl e \<Rightarrow> Inl e
                | Inr p \<Rightarrow> Inr (obj, s\<lparr>result := pushOrCombine (result s) p\<rparr>))))"

definition createObject :: "TemplateStack \<Rightarrow> item \<Rightarrow> error + (item \<times> TemplateStack)" where
  "createObject s obj =
     (case obj of
        Obj f \<Rightarrow>
          (if otype f = Str ''Widget'' then
             (case getID s of
                Inl e \<Rightarrow> Inl e
              | Inr i \<Rightarrow> closeElem s (Obj (set_id (Some i) f)))
           else closeElem s obj)
      | _ \<Rightarrow> closeElem s obj)"

definition createComment :: "TemplateStack \<Rightarrow> item \<Rightarrow> error + (item \<times> TemplateStack)" where
  "createComment s txt =
     closeElem s (Obj (JSObj None (Str ''comment'') None Undefined None False Undefined txt))"

subsection \<open>Closing an element\<close>

lemma closeElem_length_stack:
  "closeElem s obj = Inr (obj', s') \<Longrightarrow> length (stack s') = length (stack s)"
  by (auto simp: closeElem_def peek_def split: sum.splits if_splits option.splits)

text \<open>
  The loop of the mismatch branch: \<open>openElem\<close> is the frame popped last;
  while it is a frame and its tag name is not the request's, it is resolved into
  what is below it and the next frame is popped. The loop gives \<open>openElem\<close> as it
  leaves it (the frame it stopped at, or \<open>undefined\<close>) and the state.

  The frame popped last was at index \<open>length (stack s)\<close> of the stack. When its tag name
  and the request's are both objects, \<open>same k\<close> tells whether the tag name of the frame
  at index \<open>k\<close> is the very object the request carries.
\<close>

function closeLoop ::
  "(nat \<Rightarrow> bool) \<Rightarrow> item \<Rightarrow> TemplateStack \<Rightarrow> frame option
     \<Rightarrow> error + (frame option \<times> TemplateStack)" where
  "closeLoop same tag s openElem =
     (case openElem of
        None \<Rightarrow> Inr (None, s)
      | Some oe \<Rightarrow>
          (if \<not> strictEq (same (length (stack s))) (tagName oe) tag then
             (case closeElem s (Obj oe) of
                Inl e \<Rightarrow> Inl e
              | Inr (obj, s1) \<Rightarrow> closeLoop same tag (snd (popElement s1)) (fst (popElement s1)))
           else Inr (Some oe, s)))"
  by pat_completeness auto
termination
proof (relation "measure (\<lambda>(same, tag, s, oe). length (stack s) + (if oe = None then 0 else 1))",
    goal_cases)
  case 1
  show ?case by simp
next
  case (2 same tag s openElem oe x obj s1)
  from 2 have "length (stack s1) = length (stack s)"
    using closeElem_length_stack by (cases x) auto
  with 2 show ?case
    by (cases "stack s1 = []") (auto simp: popElement_def simp flip: length_greater_0_conv)
qed

declare closeLoop.simps [simp del]

definition mismatchMessage :: "item \<Rightarrow> string option \<Rightarrow> string option \<Rightarrow> string" where
  "mismatchMessage tag openID i =
     toStr tag @ '' tags improperly paired, closing '' @ idStr openID
       @ '' with close tag from '' @ idStr i"

definition emptyStackMessage :: "string option \<Rightarrow> string" where
  "emptyStackMessage i = ''Closing element '' @ idStr i @ '' when the stack was empty''"

text \<open>
  \<open>closeElement\<close>. An address is a string or absent, so \<open>openID !== id\<close> is the
  inequality of the two. On an empty stack a close request for \<open>p\<close> opens a frame and
  closes it with the frame itself as the request.
\<close>

function closeElement :: "(nat \<Rightarrow> bool) \<Rightarrow> TemplateStack \<Rightarrow> frame \<Rightarrow> error + TemplateStack" where
  "closeElement same s closingElem =
     (case peek s of
        Some openElem \<Rightarrow>
          (if oid openElem \<noteq> oid closingElem then
             (let s1 = warn (mismatchMessage (tagName closingElem) (oid openElem) (oid closingElem)) s
              in case closeLoop same (tagName closingElem) (snd (popElement s1))
                        (fst (popElement s1)) of
                   Inl e \<Rightarrow> Inl e
                 | Inr (openElem', s') \<Rightarrow> Inr s')
           else
             (case fst (popElement s) of
                None \<Rightarrow> Inl TypeError
              | Some popped \<Rightarrow>
                  (case closeElem (snd (popElement s)) (Obj popped) of
                     Inl e \<Rightarrow> Inl e
                   | Inr (obj, s') \<Rightarrow> Inr s')))
      | None \<Rightarrow>
          (if tagName closingElem = Str ''p'' then
             (case openElement s (Str ''p'') (Obj emptyObj) of
                Inl e \<Rightarrow> Inl e
              | Inr (elem, s') \<Rightarrow> closeElement same s' elem)
           else Inr (warn (emptyStackMessage (oid closingElem)) s)))"
  by pat_completeness auto
termination
proof (relation "measure (\<lambda>(same, s, c). if stack s = [] then 1 else 0)", goal_cases)
  case 1
  show ?case by simp
next
  case (2 same s closingElem x elem s')
  then show ?case
    by (auto simp: openElement_def peek_def Let_def split: sum.splits if_splits)
qed

declare closeElement.simps [simp del]

subsection \<open>The output\<close>

lemma closeElement_top_length:
  assumes "peek s = Some t" and "closeElement same s t = Inr s'"
  shows "length (stack s') < length (stack s)"
proof -
  from assms(1) have ne: "stack s \<noteq> []"
    by (auto simp: peek_def split: if_splits)
  from assms obtain obj where
    "closeElem (snd (popElement s)) (Obj (last (stack s))) = Inr (obj, s')"
    by (auto simp: closeElement.simps [of same s t] popElement_def peek_def
        split: if_splits sum.splits)
  then have "length (stack s') = length (stack (snd (popElement s)))"
    by (rule closeElem_length_stack)
  with ne show ?thesis
    by (simp add: popElement_def flip: length_greater_0_conv)
qed

text \<open>
  The loop of \<open>getOutput\<close>: close the top frame while the stack is not empty. The
  request is the top frame itself, so the addresses agree and no tag name is compared.
\<close>

function closeAll :: "(nat \<Rightarrow> bool) \<Rightarrow> TemplateStack \<Rightarrow> error + TemplateStack" where
  "closeAll same s =
     (case peek s of
        None \<Rightarrow> Inr s
      | Some t \<Rightarrow> (case closeElement same s t of Inl e \<Rightarrow> Inl e | Inr s' \<Rightarrow> closeAll same s'))"
  by pat_completeness auto
termination
  by (relation "measure (\<lambda>(same, s). length (stack s))") (auto dest: closeElement_top_length)

declare closeAll.simps [simp del]

datatype js_output = Single item | Many "item list"

definition processArrayOutput :: "item list \<Rightarrow> item list" where
  "processArrayOutput out = out"

definition getOutput ::
  "(nat \<Rightarrow> bool) \<Rightarrow> TemplateStack \<Rightarrow> error + (js_output \<times> TemplateStack)" where
  "getOutput same s =
     (case closeAll same s of
        Inl e \<Rightarrow> Inl e
      | Inr s' \<Rightarrow>
          Inr (if length (result s') = 1 then Single (result s' ! 0)
               else Many (processArrayOutput (result s')), s'))"

definition clear :: "TemplateStack \<Rightarrow> TemplateStack" where
  "clear s = s\<lparr>result := [], stack := []\<rparr>"

text \<open>The array \<open>_closeElem\<close> pushes to, for what it resolves in state \<open>s\<close>.\<close>

definition pushingTo :: "TemplateStack \<Rightarrow> item list option" where
  "pushingTo s =
     (case peek s of
        Some topElem \<Rightarrow>
          (if otype topElem = Num ELEMENT \<and> isOpen topElem then attributes topElem
           else children topElem)
      | None \<Rightarrow> Some (result s))"

text \<open>
  A frame as the builder itself makes and fills it: it has a \<open>children\<close> array
  without \<open>null\<close> or \<open>undefined\<close> entries, and an Element has its \<open>attributes\<close>
  array.
\<close>

definition wfFrame :: "frame \<Rightarrow> bool" where
  "wfFrame f =
     (case children f of
        None \<Rightarrow> False
      | Some cs \<Rightarrow> Undefined \<notin> set cs \<and> Null \<notin> set cs
          \<and> (otype f = Num ELEMENT \<longrightarrow> attributes f \<noteq> None))"

text \<open>
  For the statement of the unwinding. \<open>tagMatches same tag st k\<close> is the test of the
  loop on the frame at index \<open>k\<close> of the stack \<open>st\<close>: its tag name is the request's.
  \<open>finalized f\<close> is the frame \<open>f\<close> as \<open>_closeElem\<close> leaves it, its children
  normalized; \<open>adopt parent child\<close> is the frame \<open>parent\<close> after \<open>_closeElem\<close> has
  pushed the object \<open>child\<close> to it, to its \<open>attributes\<close> when it is an open element
  and to its \<open>children\<close> otherwise. \<open>nest\<close> takes frames from the top down and
  resolves each into the next: the result is the last frame of the list, holding the
  finalized frames that were above it, one within the other.
\<close>

definition tagMatches :: "(nat \<Rightarrow> bool) \<Rightarrow> item \<Rightarrow> frame list \<Rightarrow> nat \<Rightarrow> bool" where
  "tagMatches same tag st k = strictEq (same k) (tagName (st ! k)) tag"

definition finalized :: "frame \<Rightarrow> frame" where
  "finalized f = (case closeChildren (Obj f) of Inr (Obj f') \<Rightarrow> f' | _ \<Rightarrow> f)"

definition adopt :: "frame \<Rightarrow> frame \<Rightarrow> frame" where
  "adopt parent child =
     (if otype parent = Num ELEMENT \<and> isOpen parent
      then set_attributes (map_option (\<lambda>xs. pushOrCombine xs (Obj child)) (attributes parent)) parent
      else set_children (map_option (\<lambda>xs. pushOrCombine xs (Obj child)) (children parent)) parent)"

fun nest :: "frame list \<Rightarrow> frame" where
  "nest [] = emptyObj"
| "nest [f] = f"
| "nest (f # p # ps) = nest (adopt p (finalized f) # ps)"

subsection \<open>Runs of the builder\<close>

text \<open>No two neighbours of a sequence are both strings.\<close>

fun noAdjacentStrings :: "item list \<Rightarrow> bool" where
  "noAdjacentStrings [] = True"
| "noAdjacentStrings [x] = True"
| "noAdjacentStrings (x # y # zs) = (\<not> (isString x \<and> isString y) \<and> noAdjacentStrings (y # zs))"

text \<open>
  The states of a builder: a new one (with any \<open>startID\<close>, which output targets set),
  and what an operation that returns leaves. An operation that throws leaves a state
  that these rules cover as well: \<open>_closeElem\<close> throws before it writes to the
  builder, and on the frames the builder makes \<open>closeElement\<close> does not throw.
  In the rules of \<open>closeElement\<close> and \<open>getOutput\<close>, \<open>same\<close> is any answer to which
  tag names are the same object.

  Modelled from the spec: the interpreter (ractive\_adaptor.js, not among the sources)
  holds the handle \<open>openElement\<close> returned and marks the element as no longer
  accepting attributes ("attributes go to a distinct slot than children until the
  element is structurally closed"); rule \<open>setOpen\<close> is that write to \<open>isOpen\<close>, on any
  frame of the stack.
\<close>

inductive reachable :: "TemplateStack \<Rightarrow> bool" where
  new: "reachable (newTemplateStack\<lparr>startID := sid\<rparr>)"
| openElement: "reachable s \<Longrightarrow> openElement s type val = Inr (elem, s') \<Longrightarrow> reachable s'"
| setOpen: "reachable s \<Longrightarrow> i < length (stack s) \<Longrightarrow>
     reachable (s\<lparr>stack := (stack s)[i := set_isOpen b (stack s ! i)]\<rparr>)"
| createObject: "reachable s \<Longrightarrow> createObject s obj = Inr (obj', s') \<Longrightarrow> reachable s'"
| createComment: "reachable s \<Longrightarrow> createComment s txt = Inr (obj', s') \<Longrightarrow> reachable s'"
| popElement: "reachable s \<Longrightarrow> reachable (snd (popElement s))"
| closeElement: "reachable s \<Longrightarrow> closeElement same s closingElem = Inr s' \<Longrightarrow> reachable s'"
| getOutput: "reachable s \<Longrightarrow> getOutput same s = Inr (out, s') \<Longrightarrow> reachable s'"
| clear: "reachable s \<Longrightarrow> reachable (clear s)"

definition frameInv :: "frame \<Rightarrow> bool" where
  "frameInv f = (wfFrame f
     \<and> (case children f of None \<Rightarrow> True | Some cs \<Rightarrow> noAdjacentStrings cs)
     \<and> (case attributes f of None \<Rightarrow> True | Some as \<Rightarrow> noAdjacentStrings as))"

definition stackInv :: "TemplateStack \<Rightarrow> bool" where
  "stackInv s = (noAdjacentStrings (result s) \<and> list_all frameInv (stack s))"

section \<open>The attachment pass and the facade: Template (src/template/template.js)\<close>

subsection \<open>The store\<close>

text \<open>
  \<open>attachViews\<close> writes into the arrays and nodes it is given, and a partial's graph can
  be shared between templates, so the graph lives in a store: a value is a string,
  \<open>null\<close>, \<open>undefined\<close> or a reference, and a reference names an array, a node of the
  compiled graph, a Widget object or a Template object. Each kind has its own address
  space, a list indexed by the address; allocation appends. A reference beyond the end
  of its list names nothing (no store of a JavaScript program has one); reading through
  it is the failure \<open>DanglingReference\<close>.

  A node has the fields of the compiled graph that the code reads: \<open>t\<close> (the type tag),
  \<open>e\<close> (the tag name), \<open>a\<close> (the attributes, which the pass only reads: a string, or
  an array of strings and dynamic parts), \<open>f\<close> (the children), \<open>r\<close> (the key) and \<open>root\<close>.
  A component and the widget wrapper are opaque to this code and stand as names. A
  partials map is an object from names to values; \<open>attachViews\<close> only reads them.

  A partials map and the child views of a view are plain objects, given as the list of
  their own properties in the order these were added (for the child views, the order
  in which the selectors were registered); a name occurs once.
\<close>

type_synonym addr = nat
type_synonym component = string
type_synonym wrapper = string

datatype val = VUndefined | VNull | VStr string | VArr addr | VNode addr | VWidget addr | VTmpl addr

datatype classPart = PStr string | PDynamic

datatype attr = AStr string | AParts "classPart list"

record node =
  node_t :: "nat option"
  node_e :: "string option"
  node_a :: "(string \<times> attr) list option"
  node_f :: val
  node_r :: "string option"
  node_root :: bool

record view =
  childViews :: "(string \<times> component) list option"
  parentView :: "component option"

text \<open>
  The property read \<open>obj[name]\<close> on a plain object gives the object's own property of
  that name, or else the member of that name which every object inherits from
  \<open>Object.prototype\<close>, or else \<open>undefined\<close>. The inherited members are those of
  ECMAScript and its annex B; each is a function, and \<open>__proto__\<close> reads as the
  prototype itself: all are truthy and none has an enumerable property.
\<close>

definition objectPrototypeMembers :: "string list" where
  "objectPrototypeMembers =
     [''constructor'', ''hasOwnProperty'', ''isPrototypeOf'', ''propertyIsEnumerable'',
      ''toLocaleString'', ''toString'', ''valueOf'', ''__proto__'', ''__defineGetter__'',
      ''__defineSetter__'', ''__lookupGetter__'', ''__lookupSetter__'']"

datatype 'a property = Own 'a | Inherited string | Missing

definition getProperty :: "(string \<times> 'a) list \<Rightarrow> string \<Rightarrow> 'a property" where
  "getProperty obj name =
     (case map_of obj name of
        Some v \<Rightarrow> Own v
      | None \<Rightarrow> (if name \<in> set objectPrototypeMembers then Inherited name else Missing))"

record widget =
  widget_constructor :: wrapper
  widget_childView :: "component property"
  widget_template :: addr

record template =
  templateObj :: val
  partials :: "addr option"
  view :: "view option"

record store =
  arrays :: "val list list"
  nodes :: "node list"
  widgets :: "widget list"
  templates :: "template list"
  partialMaps :: "(string \<times> val) list list"
  warnings :: "string list"

text \<open>
  The result of the pass: it returns a value and the store it leaves, or throws, or the
  model ran out of fuel (the recursion of the source is not bounded: a partial that
  includes itself makes it recurse for ever).
\<close>

datatype 'a res = OutOfFuel | Throws error | Returns 'a store

definition lookup :: "'a list \<Rightarrow> addr \<Rightarrow> 'a option" where
  "lookup xs a = (if a < length xs then Some (xs ! a) else None)"

fun truthy :: "val \<Rightarrow> bool" where
  "truthy VUndefined = False"
| "truthy VNull = False"
| "truthy (VStr s) = (s \<noteq> [])"
| "truthy v = True"

subsection \<open>Matching an element against the child views\<close>

text \<open>
  \<open>_.keys(obj)\<close> is \<open>Object.keys(obj)\<close>: the names of the object's own properties,
  those that are array indices first, in ascending numeric order, and then the others
  in the order they were added. An array index is the decimal numeral, without sign
  or leading zero, of an integer below 4294967295.
\<close>

definition isDigit :: "char \<Rightarrow> bool" where
  "isDigit c = (c \<in> set ''0123456789'')"

definition digitValue :: "char \<Rightarrow> int" where
  "digitValue c = of_char c - 48"

definition indexValue :: "string \<Rightarrow> int" where
  "indexValue s = foldl (\<lambda>n c. 10 * n + digitValue c) 0 s"

definition isArrayIndex :: "string \<Rightarrow> bool" where
  "isArrayIndex s =
     (s \<noteq> [] \<and> list_all isDigit s \<and> (s = ''0'' \<or> hd s \<noteq> CHR ''0'')
      \<and> indexValue s < 4294967295)"

definition keys :: "(string \<times> 'a) list \<Rightarrow> string list" where
  "keys obj =
     sort_key indexValue (filter isArrayIndex (map fst obj))
       @ filter (\<lambda>k. \<not> isArrayIndex k) (map fst obj)"

text \<open>
  \<open>childClasses\<close> is the cache the pass builds from the child views: the keys, the keys
  padded with a space on each side, and their number.
\<close>

record childClasses =
  flat :: "string list"
  padded :: "string list"
  len :: nat

definition computeChildClasses :: "(string \<times> component) list \<Rightarrow> childClasses" where
  "computeChildClasses cv =
     \<lparr>flat = keys cv,
      padded = map (\<lambda>key. '' '' @ key @ '' '') (keys cv),
      len = length (keys cv)\<rparr>"

text \<open>\<open>className.indexOf(p)\<close>: the first position of \<open>p\<close> in the string, or \<open>-1\<close>.\<close>

fun startsWith :: "string \<Rightarrow> string \<Rightarrow> bool" where
  "startsWith s [] = True"
| "startsWith [] (p # ps) = False"
| "startsWith (c # cs) (p # ps) = (c = p \<and> startsWith cs ps)"

fun indexOfFrom :: "string \<Rightarrow> string \<Rightarrow> nat \<Rightarrow> int" where
  "indexOfFrom [] p k = (if p = [] then int k else - 1)"
| "indexOfFrom (c # cs) p k = (if startsWith (c # cs) p then int k else indexOfFrom cs p (Suc k))"

definition indexOf :: "string \<Rightarrow> string \<Rightarrow> int" where
  "indexOf s p = indexOfFrom s p 0"

text \<open>
  The class name the matching uses: the attribute itself when it is a string, and
  otherwise its string members joined with spaces. \<open>attrTruthy\<close> is the test
  \<open>template.a['class']\<close>: an empty string is falsy, an array is not.
\<close>

fun joinWith :: "string \<Rightarrow> string list \<Rightarrow> string" where
  "joinWith sep [] = []"
| "joinWith sep [x] = x"
| "joinWith sep (x # y # zs) = x @ sep @ joinWith sep (y # zs)"

fun staticStrings :: "classPart list \<Rightarrow> string list" where
  "staticStrings [] = []"
| "staticStrings (PStr s # ps) = s # staticStrings ps"
| "staticStrings (PDynamic # ps) = staticStrings ps"

fun attrTruthy :: "attr \<Rightarrow> bool" where
  "attrTruthy (AStr s) = (s \<noteq> [])"
| "attrTruthy (AParts ps) = True"

fun staticClassName :: "attr \<Rightarrow> string" where
  "staticClassName (AStr s) = s"
| "staticClassName (AParts ps) = joinWith '' '' (staticStrings ps)"

text \<open>
  \<open>childClasses.padded[i]\<close> and \<open>childClasses.flat[i]\<close>; an index beyond the array reads
  \<open>undefined\<close>, which \<open>indexOf\<close> and the property lookup turn into the string
  \<open>'undefined'\<close>.
\<close>

definition paddedAt :: "childClasses \<Rightarrow> nat \<Rightarrow> string" where
  "paddedAt cc i = (if i < length (padded cc) then padded cc ! i else ''undefined'')"

definition flatAt :: "childClasses \<Rightarrow> nat \<Rightarrow> string" where
  "flatAt cc i = (if i < length (flat cc) then flat cc ! i else ''undefined'')"

text \<open>
  The loop \<open>for (i = childClasses.length; i--; )\<close>: the last index whose padded key
  occurs in the padded class name, searching downwards from \<open>i\<close>.
\<close>

fun findMatch :: "string \<Rightarrow> childClasses \<Rightarrow> nat \<Rightarrow> nat option" where
  "findMatch className cc 0 = None"
| "findMatch className cc (Suc i) =
     (if indexOf className (paddedAt cc i) > - 1 then Some i else findMatch className cc i)"

definition classOf :: "node \<Rightarrow> attr option" where
  "classOf nd = (case node_a nd of None \<Rightarrow> None | Some attrs \<Rightarrow> map_of attrs ''class'')"

definition matchChildView :: "node \<Rightarrow> childClasses \<Rightarrow> nat option" where
  "matchChildView nd cc =
     (case classOf nd of
        None \<Rightarrow> None
      | Some className \<Rightarrow>
          (if attrTruthy className
           then findMatch ('' '' @ staticClassName className @ '' '') cc (len cc)
           else None))"

text \<open>
  The Widget object that replaces a matched element, and the Template object it holds.
\<close>

definition newWidget ::
  "store \<Rightarrow> wrapper \<Rightarrow> component property \<Rightarrow> val \<Rightarrow> addr option \<Rightarrow> val \<times> store" where
  "newWidget s widgetWrapper child tmpl ps =
     (let t = length (templates s);
          s1 = s\<lparr>templates := templates s @ [\<lparr>templateObj = tmpl, partials = ps, view = None\<rparr>]\<rparr>;
          w = length (widgets s1)
      in (VWidget w,
          s1\<lparr>widgets := widgets s1 @
             [\<lparr>widget_constructor = widgetWrapper, widget_childView = child,
               widget_template = t\<rparr>]\<rparr>))"

subsection \<open>Collaborators from underscore and the context\<close>

text \<open>
  \<open>_.flatten(x, true)\<close>: a new array with the members of \<open>x\<close>, those that are arrays
  replaced by their own members (a dangling one by none); of a value that is no array,
  its elements by index (the characters of a string, nothing otherwise). The result is
  stored as the node's \<open>f\<close>.
\<close>

fun flattenOnce :: "store \<Rightarrow> val list \<Rightarrow> val list" where
  "flattenOnce s [] = []"
| "flattenOnce s (VArr b # xs) =
     (case lookup (arrays s) b of None \<Rightarrow> [] | Some ys \<Rightarrow> ys) @ flattenOnce s xs"
| "flattenOnce s (x # xs) = x # flattenOnce s xs"

definition flatten :: "store \<Rightarrow> val \<Rightarrow> val list" where
  "flatten s v =
     (case v of
        VArr fa \<Rightarrow> (case lookup (arrays s) fa of None \<Rightarrow> [] | Some xs \<Rightarrow> flattenOnce s xs)
      | VStr str \<Rightarrow> map (\<lambda>c. VStr [c]) str
      | _ \<Rightarrow> [])"

text \<open>
  \<open>template.f = ...\<close> with a new array, and \<open>array[i] = v\<close>. The loops write only at
  indices below the length they have just read, and no call changes the length of an
  array, so the write never extends one.
\<close>

definition setChildren :: "store \<Rightarrow> addr \<Rightarrow> val list \<Rightarrow> store" where
  "setChildren s a xs =
     (let fa = length (arrays s)
      in s\<lparr>arrays := arrays s @ [xs],
           nodes := (nodes s)[a := (nodes s ! a)\<lparr>node_f := VArr fa\<rparr>]\<rparr>)"

definition writeArray :: "store \<Rightarrow> addr \<Rightarrow> nat \<Rightarrow> val \<Rightarrow> store" where
  "writeArray s a i v = s\<lparr>arrays := (arrays s)[a := (arrays s ! a)[i := v]]\<rparr>"

text \<open>
  \<open>_.clone\<close>: a copy of an array or object that shares its members; other values as
  they are. The copy of a member of \<open>Object.prototype\<close>, which has no enumerable
  property, is a new empty object, \<open>{}\<close>.
\<close>

definition emptyNode :: node where
  "emptyNode = \<lparr>node_t = None, node_e = None, node_a = None, node_f = VUndefined,
                 node_r = None, node_root = False\<rparr>"

definition cloneInherited :: "store \<Rightarrow> val \<times> store" where
  "cloneInherited s = (VNode (length (nodes s)), s\<lparr>nodes := nodes s @ [emptyNode]\<rparr>)"

definition clone :: "store \<Rightarrow> val \<Rightarrow> error + (val \<times> store)" where
  "clone s v =
     (case v of
        VArr a \<Rightarrow> (case lookup (arrays s) a of None \<Rightarrow> Inl DanglingReference
                   | Some xs \<Rightarrow> Inr (VArr (length (arrays s)), s\<lparr>arrays := arrays s @ [xs]\<rparr>))
      | VNode a \<Rightarrow> (case lookup (nodes s) a of None \<Rightarrow> Inl DanglingReference
                   | Some nd \<Rightarrow> Inr (VNode (length (nodes s)), s\<lparr>nodes := nodes s @ [nd]\<rparr>))
      | VWidget a \<Rightarrow> (case lookup (widgets s) a of None \<Rightarrow> Inl DanglingReference
                   | Some w \<Rightarrow> Inr (VWidget (length (widgets s)), s\<lparr>widgets := widgets s @ [w]\<rparr>))
      | VTmpl a \<Rightarrow> (case lookup (templates s) a of None \<Rightarrow> Inl DanglingReference
                   | Some t \<Rightarrow> Inr (VTmpl (length (templates s)), s\<lparr>templates := templates s @ [t]\<rparr>))
      | _ \<Rightarrow> Inr (v, s))"

text \<open>
  Modelled from the spec: \<open>Context.getInterpolatorKey\<close> (template\_context.js is not among
  the sources) is the "interpolator-key-extraction helper"; for a Partial node it gives
  the name of the partial, the node's key \<open>r\<close>. A missing key reads \<open>undefined\<close>, which
  the property lookup turns into the string \<open>'undefined'\<close>. \<open>Context.isArray\<close>, the
  "array-detection" helper, is the test for an array reference.
\<close>

definition getInterpolatorKey :: "node \<Rightarrow> string" where
  "getInterpolatorKey nd = (case node_r nd of None \<Rightarrow> ''undefined'' | Some k \<Rightarrow> k)"

definition noPartialMessage :: "string \<Rightarrow> string" where
  "noPartialMessage partialName = ''Warning: no partial registered with the name '' @ partialName"

subsection \<open>Resolving a partial\<close>

text \<open>
  The lookup \<open>partials[partialName]\<close> in the map the pass was given: it throws when there
  is no map, and is unresolved when the entry is missing or falsy. A resolved entry that
  is a Template with a graph is unwrapped to its graph; the second component is the
  entry's own \<open>partials\<close>, for the recursion. A name that the map does not have but
  every object inherits resolves to that inherited member, which has neither a
  \<open>templateObj\<close> nor \<open>partials\<close>.
\<close>

datatype resolution = Unresolved | Resolved val "addr option" | ResolvedInherited string

definition resolvePartial :: "store \<Rightarrow> addr option \<Rightarrow> string \<Rightarrow> error + resolution" where
  "resolvePartial s ps partialName =
     (case ps of
        None \<Rightarrow> Inl TypeError
      | Some p \<Rightarrow>
          (case lookup (partialMaps s) p of
             None \<Rightarrow> Inl DanglingReference
           | Some pm \<Rightarrow>
               (case getProperty pm partialName of
                  Missing \<Rightarrow> Inr Unresolved
                | Inherited member \<Rightarrow> Inr (ResolvedInherited member)
                | Own entry \<Rightarrow>
                    (if \<not> truthy entry then Inr Unresolved
                     else (case entry of
                             VTmpl t \<Rightarrow>
                               (case lookup (templates s) t of
                                  None \<Rightarrow> Inl DanglingReference
                                | Some tm \<Rightarrow>
                                    Inr (Resolved
                                      (if truthy (templateObj tm) then templateObj tm else entry)
                                      (partials tm)))
                           | _ \<Rightarrow> Inr (Resolved entry None))))))"

subsection \<open>attachViews\<close>

text \<open>
  \<open>attachViews\<close> and its two loops are mutually recursive, on fuel. Each body is
  written with the functions it calls as parameters (primed), in the order of the
  source: \<open>attachViewsBody\<close> is the function itself up to its loops,
  \<open>arrayLoopBody\<close> the loop over an array template, \<open>childLoopBody\<close> the loop over
  \<open>template.f\<close>, \<open>attachChildrenBody\<close> that loop followed by the flattening, and
  \<open>attachPartialBody\<close> the last block, "if this is a partial, lookup and recurse".
  \<open>reg\<close> is \<open>registeredPartials\<close>.

  In the loops the store is read again at every turn, as the source reads
  \<open>template.length\<close> and \<open>template.f\<close>; an assignment writes to the array that was
  read before the recursive call. Assigning to an index of a string throws (the file is
  in strict mode).
\<close>

type_synonym attachFn =
  "addr \<Rightarrow> view \<Rightarrow> val \<Rightarrow> wrapper \<Rightarrow> addr option \<Rightarrow> childClasses option \<Rightarrow> store \<Rightarrow> val res"

type_synonym loopFn =
  "addr \<Rightarrow> view \<Rightarrow> addr \<Rightarrow> nat \<Rightarrow> wrapper \<Rightarrow> addr option \<Rightarrow> childClasses option \<Rightarrow> store \<Rightarrow> val res"

type_synonym partialFn =
  "addr \<Rightarrow> view \<Rightarrow> addr \<Rightarrow> wrapper \<Rightarrow> addr option \<Rightarrow> childClasses option \<Rightarrow> store \<Rightarrow> val res"

definition attachPartialBody :: "attachFn \<Rightarrow> partialFn" where
  "attachPartialBody attachViews' reg vw a ww ps cc s =
     (case lookup (nodes s) a of
        None \<Rightarrow> Throws DanglingReference
      | Some nd \<Rightarrow>
          (if node_t nd = Some PARTIAL then
             (case resolvePartial s ps (getInterpolatorKey nd) of
                Inl e \<Rightarrow> Throws e
              | Inr Unresolved \<Rightarrow>
                  Returns VNull
                    (s\<lparr>warnings := warnings s @ [noPartialMessage (getInterpolatorKey nd)]\<rparr>)
              | Inr (Resolved partialTemplate own) \<Rightarrow>
                  (case clone s partialTemplate of
                     Inl e \<Rightarrow> Throws e
                   | Inr (c, s1) \<Rightarrow>
                       attachViews' reg vw c ww
                         (case own of None \<Rightarrow> Some reg | Some q \<Rightarrow> Some q) cc s1)
              | Inr (ResolvedInherited member) \<Rightarrow>
                  (case cloneInherited s of
                     (c, s1) \<Rightarrow> attachViews' reg vw c ww (Some reg) cc s1))
           else Returns (VNode a) s))"

definition childLoopBody :: "attachFn \<Rightarrow> loopFn \<Rightarrow> loopFn" where
  "childLoopBody attachViews' childLoop' reg vw a i ww ps cc s =
     (case lookup (nodes s) a of
        None \<Rightarrow> Throws DanglingReference
      | Some nd \<Rightarrow>
          (case node_f nd of
             VUndefined \<Rightarrow> Throws TypeError
           | VNull \<Rightarrow> Throws TypeError
           | VStr str \<Rightarrow>
               (if i < length str then
                  (case attachViews' reg vw (VStr [str ! i]) ww ps cc s of
                     OutOfFuel \<Rightarrow> OutOfFuel
                   | Throws e \<Rightarrow> Throws e
                   | Returns v s1 \<Rightarrow> Throws TypeError)
                else Returns (VNode a) s)
           | VArr fa \<Rightarrow>
               (case lookup (arrays s) fa of
                  None \<Rightarrow> Throws DanglingReference
                | Some xs \<Rightarrow>
                    (if i < length xs then
                       (case attachViews' reg vw (xs ! i) ww ps cc s of
                          OutOfFuel \<Rightarrow> OutOfFuel
                        | Throws e \<Rightarrow> Throws e
                        | Returns v s1 \<Rightarrow>
                            childLoop' reg vw a (i + 1) ww ps cc (writeArray s1 fa i v))
                     else Returns (VNode a) s))
           | _ \<Rightarrow> Returns (VNode a) s))"

definition arrayLoopBody :: "attachFn \<Rightarrow> loopFn \<Rightarrow> loopFn" where
  "arrayLoopBody attachViews' arrayLoop' reg vw a i ww ps cc s =
     (case lookup (arrays s) a of
        None \<Rightarrow> Throws DanglingReference
      | Some xs \<Rightarrow>
          (if i < length xs then
             (case attachViews' reg vw (xs ! i) ww ps cc s of
                OutOfFuel \<Rightarrow> OutOfFuel
              | Throws e \<Rightarrow> Throws e
              | Returns v s1 \<Rightarrow> arrayLoop' reg vw a (i + 1) ww ps cc (writeArray s1 a i v))
           else Returns (VArr a) s))"

definition attachChildrenBody :: "loopFn \<Rightarrow> node \<Rightarrow> partialFn" where
  "attachChildrenBody childLoop' nd reg vw a ww ps cc s =
     (if truthy (node_f nd) then
        (case childLoop' reg vw a 0 ww ps cc s of
           OutOfFuel \<Rightarrow> OutOfFuel
         | Throws e \<Rightarrow> Throws e
         | Returns u s1 \<Rightarrow>
             (case lookup (nodes s1) a of
                None \<Rightarrow> Throws DanglingReference
              | Some nd1 \<Rightarrow> Returns (VNode a) (setChildren s1 a (flatten s1 (node_f nd1)))))
      else Returns (VNode a) s)"

definition attachRest :: "loopFn \<Rightarrow> partialFn \<Rightarrow> node \<Rightarrow> partialFn" where
  "attachRest childLoop' attachPartial' nd reg vw a ww ps cc s =
     (case attachChildrenBody childLoop' nd reg vw a ww ps cc s of
        OutOfFuel \<Rightarrow> OutOfFuel
      | Throws e \<Rightarrow> Throws e
      | Returns u s1 \<Rightarrow> attachPartial' reg vw a ww ps cc s1)"

definition attachViewsBody :: "loopFn \<Rightarrow> loopFn \<Rightarrow> partialFn \<Rightarrow> attachFn" where
  "attachViewsBody arrayLoop' childLoop' attachPartial' reg vw tmpl ww ps cc s =
     (case tmpl of
        VStr x \<Rightarrow> Returns tmpl s
      | VArr a \<Rightarrow> arrayLoop' reg vw a 0 ww ps cc s
      | VUndefined \<Rightarrow> Throws TypeError
      | VNull \<Rightarrow> Throws TypeError
      | VWidget w \<Rightarrow> Returns tmpl s
      | VTmpl t \<Rightarrow> Returns tmpl s
      | VNode a \<Rightarrow>
          (case lookup (nodes s) a of
             None \<Rightarrow> Throws DanglingReference
           | Some nd \<Rightarrow>
               (case (if node_root nd then None else childViews vw) of
                  None \<Rightarrow> attachRest childLoop' attachPartial' nd reg vw a ww ps cc s
                | Some cv \<Rightarrow>
                    (let cc1 = (case cc of None \<Rightarrow> computeChildClasses cv | Some c \<Rightarrow> c)
                     in case matchChildView nd cc1 of
                          Some i \<Rightarrow>
                            (case newWidget s ww (getProperty cv (flatAt cc1 i)) tmpl ps of
                               (w, s') \<Rightarrow> Returns w s')
                        | None \<Rightarrow>
                            attachRest childLoop' attachPartial' nd reg vw a ww ps (Some cc1) s))))"

fun attachViews :: "nat \<Rightarrow> attachFn"
  and arrayLoop :: "nat \<Rightarrow> loopFn"
  and childLoop :: "nat \<Rightarrow> loopFn"
  and attachPartial :: "nat \<Rightarrow> partialFn"
where
  "attachViews 0 = (\<lambda>reg vw tmpl ww ps cc s. OutOfFuel)"
| "attachViews (Suc n) = attachViewsBody (arrayLoop n) (childLoop n) (attachPartial n)"
| "arrayLoop 0 = (\<lambda>reg vw a i ww ps cc s. OutOfFuel)"
| "arrayLoop (Suc n) = arrayLoopBody (attachViews n) (arrayLoop n)"
| "childLoop 0 = (\<lambda>reg vw a i ww ps cc s. OutOfFuel)"
| "childLoop (Suc n) = childLoopBody (attachViews n) (childLoop n)"
| "attachPartial 0 = (\<lambda>reg vw a ww ps cc s. OutOfFuel)"
| "attachPartial (Suc n) = attachPartialBody (attachViews n)"



subsection \<open>toString\<close>

text \<open>
  The interpreter (ractive\_adaptor.js), the data context and the string builder
  (to\_html\_string.js) are not among the sources: they are parameters. The adaptor
  receives the builder, the graph, the context, the partials map and the view, and
  leaves the builder, of which \<open>getOutput\<close> gives the output.
\<close>

record ('stack, 'ctx, 'data, 'out) collaborators =
  ractiveAdaptor :: "'stack \<Rightarrow> val \<Rightarrow> 'ctx \<Rightarrow> addr \<Rightarrow> view option \<Rightarrow> store \<Rightarrow> 'stack"
  contextOf :: "'data \<Rightarrow> 'ctx"
  toHtmlString :: "'stack"
  getOutputOf :: "'stack \<Rightarrow> 'out"

text \<open>
  \<open>_render\<close>: the graph is the one given, or the Template's own when that is falsy;
  the partials are those given, or the registry; the result is the builder's output.
\<close>

definition render ::
  "('stack, 'ctx, 'data, 'out) collaborators \<Rightarrow> addr \<Rightarrow> template \<Rightarrow> val \<Rightarrow> 'data \<Rightarrow> view option
     \<Rightarrow> addr option \<Rightarrow> 'stack \<Rightarrow> store \<Rightarrow> 'out" where
  "render env reg this tmpl data vw ps stk s =
     getOutputOf env
       (ractiveAdaptor env stk (if truthy tmpl then tmpl else templateObj this)
          (contextOf env data) (case ps of Some p \<Rightarrow> p | None \<Rightarrow> reg) vw s)"

text \<open>
  \<open>this.templateObj.f\<close>: it throws on \<open>null\<close> and \<open>undefined\<close>, and is \<open>undefined\<close> on
  what has no such field. \<open>templateToRender\<close> is the variable of that name in
  \<open>toString\<close>, after its first four lines.
\<close>

definition fieldF :: "store \<Rightarrow> val \<Rightarrow> error + val" where
  "fieldF s v =
     (case v of
        VUndefined \<Rightarrow> Inl TypeError
      | VNull \<Rightarrow> Inl TypeError
      | VNode a \<Rightarrow> (case lookup (nodes s) a of None \<Rightarrow> Inl DanglingReference
                     | Some nd \<Rightarrow> Inr (node_f nd))
      | _ \<Rightarrow> Inr VUndefined)"

definition templateToRender :: "store \<Rightarrow> template \<Rightarrow> error + val" where
  "templateToRender s this =
     (case view this of
        None \<Rightarrow> Inr (templateObj this)
      | Some vw \<Rightarrow>
          (if parentView vw = None then fieldF s (templateObj this)
           else Inr (templateObj this)))"

definition toString ::
  "('stack, 'ctx, 'data, 'out) collaborators \<Rightarrow> addr \<Rightarrow> template \<Rightarrow> 'data \<Rightarrow> store
     \<Rightarrow> error + 'out" where
  "toString env reg this data s =
     (case templateToRender s this of
        Inl e \<Rightarrow> Inl e
      | Inr tmpl \<Rightarrow> Inr (render env reg this tmpl data None (partials this) (toHtmlString env) s))"


subsection \<open>What a call may change\<close>

text \<open>
  For the frame property of the pass: two nodes agree in every field but \<open>f\<close>; and a
  later store keeps every node up to \<open>f\<close>, the length of every array, and every widget,
  template and partials map of an earlier one.
\<close>

definition sameButChildren :: "node \<Rightarrow> node \<Rightarrow> bool" where
  "sameButChildren x y =
     (node_t x = node_t y \<and> node_e x = node_e y \<and> node_a x = node_a y
      \<and> node_r x = node_r y \<and> node_root x = node_root y)"

definition nodesKept :: "store \<Rightarrow> store \<Rightarrow> bool" where
  "nodesKept s s' =
     (length (nodes s) \<le> length (nodes s')
      \<and> (\<forall>a<length (nodes s). sameButChildren (nodes s ! a) (nodes s' ! a)))"

definition arraysKept :: "store \<Rightarrow> store \<Rightarrow> bool" where
  "arraysKept s s' =
     (length (arrays s) \<le> length (arrays s')
      \<and> (\<forall>a<length (arrays s). length (arrays s' ! a) = length (arrays s ! a)))"

definition othersKept :: "store \<Rightarrow> store \<Rightarrow> bool" where
  "othersKept s s' =
     ((\<exists>ws. widgets s' = widgets s @ ws) \<and> (\<exists>ts. templates s' = templates s @ ts)
      \<and> partialMaps s' = partialMaps s)"

definition framed :: "store \<Rightarrow> store \<Rightarrow> bool" where
  "framed s s' = (nodesKept s s' \<and> arraysKept s s' \<and> othersKept s s')"

section \<open>Properties of the builder\<close>

lemma sel_simps [simp]:
  "children (set_children cs f) = cs" "otype (set_children cs f) = otype f"
  "oid (set_children cs f) = oid f" "tagName (set_children cs f) = tagName f"
  "attributes (set_children cs f) = attributes f" "isOpen (set_children cs f) = isOpen f"
  "ovalue (set_children cs f) = ovalue f" "otext (set_children cs f) = otext f"
  "children (set_attributes as f) = children f" "otype (set_attributes as f) = otype f"
  "oid (set_attributes as f) = oid f" "tagName (set_attributes as f) = tagName f"
  "attributes (set_attributes as f) = as" "isOpen (set_attributes as f) = isOpen f"
  "ovalue (set_attributes as f) = ovalue f" "otext (set_attributes as f) = otext f"
  "children (set_id i f) = children f" "otype (set_id i f) = otype f"
  "oid (set_id i f) = i" "tagName (set_id i f) = tagName f"
  "attributes (set_id i f) = attributes f" "isOpen (set_id i f) = isOpen f"
  "ovalue (set_id i f) = ovalue f" "otext (set_id i f) = otext f"
  "children (set_isOpen b f) = children f" "otype (set_isOpen b f) = otype f"
  "oid (set_isOpen b f) = oid f" "tagName (set_isOpen b f) = tagName f"
  "attributes (set_isOpen b f) = attributes f" "isOpen (set_isOpen b f) = b"
  "ovalue (set_isOpen b f) = ovalue f" "otext (set_isOpen b f) = otext f"
  by (simp_all add: set_children_def set_attributes_def set_id_def set_isOpen_def)

subsection \<open>Node normalization\<close>

text \<open>
  Claim C7, as amended. For a frame of type Element, Section, SectionUnless or Partial,
  \<open>processObject\<close> returns a node whose \<open>children\<close> key is absent when the frame's
  children are empty or absent, and is the frame's children, unchanged, when they are
  not empty; the node never has an empty \<open>children\<close> array. An Element's tag name and
  attributes, and the value of the other three, are copied as they are: the
  \<open>attributes\<close> array is copied also when it is empty.
\<close>

theorem processObject_omits_empty_children:
  assumes "otype f = Num ELEMENT \<or> otype f = Num SECTION \<or> otype f = Num SECTION_UNLESS
           \<or> otype f = Num PARTIAL"
  shows "\<exists>p. processObject (Obj f) = Inr (Obj p)
           \<and> children p = (case children f of None \<Rightarrow> None
                            | Some cs \<Rightarrow> if cs = [] then None else Some cs)
           \<and> children p \<noteq> Some []
           \<and> otype p = otype f
           \<and> (if otype f = Num ELEMENT
                then tagName p = tagName f \<and> attributes p = attributes f
                else ovalue p = ovalue f)"
  using assms
  by (auto simp: processFields_def keepChildren_def types_defs split: option.splits)

theorem processObject_omits_empty_children_witness:
  "otype (JSObj (Some [Str ''hi'']) (Num SECTION) (Some ''0'') Undefined None False
      (Str ''items'') Undefined) = Num SECTION
   \<and> (\<exists>p. processObject (Obj (JSObj (Some [Str ''hi'']) (Num SECTION) (Some ''0'') Undefined
              None False (Str ''items'') Undefined)) = Inr (Obj p)
          \<and> children p = Some [Str ''hi''] \<and> ovalue p = Str ''items'')"
  using processObject_omits_empty_children
    [of "JSObj (Some [Str ''hi'']) (Num SECTION) (Some ''0'') Undefined None False
      (Str ''items'') Undefined"]
  by (simp add: types_defs)

text \<open>
  Claim C7 as stated fails: the normalized node of an Element frame without attributes,
  as \<open>openElement\<close> makes it, has the empty array as its \<open>attributes\<close>.
\<close>

theorem processObject_empty_attributes_counterexample:
  "(case processObject (Obj (JSObj (Some []) (Num ELEMENT) (Some ''0'') (Str ''br'') (Some [])
        True Undefined Undefined)) of
      Inr (Obj p) \<Rightarrow> attributes p = Some []
    | _ \<Rightarrow> False)"
  by (simp add: processFields_def)

subsection \<open>A close request on an empty stack\<close>

lemma closeElement_empty_stack:
  assumes "stack s = []"
  shows "closeElement same s c =
           (if tagName c = Str ''p''
            then Inr (s\<lparr>result := result s @ [Obj emptyObj]\<rparr>)
            else Inr (warn (emptyStackMessage (oid c)) s))"
proof (cases "tagName c = Str ''p''")
  case False
  with assms show ?thesis
    by (simp add: closeElement.simps [of same s c] peek_def)
next
  case True
  let ?i = "startID s @ string_of_nat (length (result s))"
  let ?elem = "JSObj (Some []) (Str ''p'') (Some ?i) Undefined None False (Obj emptyObj) Undefined"
  let ?s1 = "s\<lparr>stack := [?elem]\<rparr>"
  have o: "openElement s (Str ''p'') (Obj emptyObj) = Inr (?elem, ?s1)"
    using assms by (simp add: openElement_def getID_def peek_def types_defs Let_def)
  have "closeElement same ?s1 ?elem = Inr (s\<lparr>result := result s @ [Obj emptyObj]\<rparr>)"
    using assms
    by (simp add: closeElement.simps [of same ?s1 ?elem] peek_def popElement_def closeElem_def
        closeChildren_def processFields_def pushOrCombine_def types_defs)
  with o True assms show ?thesis
    by (simp add: closeElement.simps [of same s c] peek_def)
qed

text \<open>
  Claim C3, at the failing input: a close request for \<open>p\<close> on a new builder. The code
  calls \<open>openElement('p', {})\<close>, so \<open>'p'\<close> is the frame's type and no tag name is set;
  normalization of that frame gives \<open>{}\<close>, and this empty object, which has no type and
  no tag name, is what \<open>result\<close> receives. No diagnostic is emitted.
\<close>

theorem closeElement_stray_p_appends_empty_object:
  "closeElement same newTemplateStack
      (JSObj None (Num CLOSING_TAG) (Some ''0'') (Str ''p'') None False Undefined Undefined)
   = Inr (newTemplateStack\<lparr>result := [Obj emptyObj]\<rparr>)
   \<and> otype emptyObj = Undefined \<and> tagName emptyObj = Undefined"
  by (simp add: closeElement.simps newTemplateStack_def peek_def openElement_def
      getID_def popElement_def closeElem_def closeChildren_def processFields_def
      pushOrCombine_def emptyObj_def types_defs string_of_nat.simps Let_def)

text \<open>
  For every builder with an empty stack and every close request.
  On an empty stack a close request for \<open>p\<close> appends one node to \<open>result\<close> and emits
  no diagnostic; a close request for any other tag emits exactly one diagnostic, does
  not throw, and leaves \<open>result\<close> and the stack as they were.
\<close>

theorem closeElement_on_empty_stack:
  assumes "stack s = []"
  shows "(tagName c = Str ''p'' \<longrightarrow>
            closeElement same s c = Inr (s\<lparr>result := result s @ [Obj emptyObj]\<rparr>))
       \<and> (tagName c \<noteq> Str ''p'' \<longrightarrow>
            closeElement same s c = Inr (s\<lparr>logged := logged s @ [emptyStackMessage (oid c)]\<rparr>))"
  using closeElement_empty_stack [OF assms, of same c] by (simp add: warn_def)

theorem closeElement_on_empty_stack_witness:
  "stack newTemplateStack = []
   \<and> closeElement (\<lambda>k. False) newTemplateStack
        (JSObj None (Num CLOSING_TAG) (Some ''0.1'') (Str ''div'') None False Undefined Undefined)
      = Inr \<lparr>startID = [], result = [], stack = [],
              logged = [''Closing element 0.1 when the stack was empty'']\<rparr>"
proof -
  have h: "stack newTemplateStack = []"
    by (simp add: newTemplateStack_def)
  from closeElement_on_empty_stack [OF h,
      of "JSObj None (Num CLOSING_TAG) (Some ''0.1'') (Str ''div'') None False Undefined Undefined"
        "\<lambda>k. False"]
    h
  show ?thesis
    by (simp add: newTemplateStack_def emptyStackMessage_def)
qed

subsection \<open>Widgets receive their address\<close>

lemma closeChildren_Obj:
  "closeChildren (Obj f) = Inr obj \<Longrightarrow>
     \<exists>f'. obj = Obj f' \<and> oid f' = oid f \<and> otype f' = otype f"
  by (auto simp: closeChildren_def split: option.splits if_splits sum.splits)

lemma pushOrCombine_Obj [simp]: "pushOrCombine xs (Obj f) = xs @ [Obj f]"
  by (simp add: pushOrCombine_def)

lemma closeElem_Obj:
  assumes "closeElem s (Obj f) = Inr (obj', s')"
  shows "\<exists>f'. obj' = Obj f' \<and> oid f' = oid f \<and> otype f' = otype f
           \<and> (if stack s = [] then result s' = result s @ [Obj (processFields f')]
                else \<exists>xs. pushingTo s = Some xs \<and> pushingTo s' = Some (xs @ [Obj f']))"
proof -
  from assms obtain obj where c: "closeChildren (Obj f) = Inr obj"
    by (auto simp: closeElem_def split: sum.splits)
  then obtain f' where f': "obj = Obj f'" "oid f' = oid f" "otype f' = otype f"
    using closeChildren_Obj by blast
  show ?thesis
  proof (cases "stack s = []")
    case True
    with assms c f' show ?thesis
      by (auto simp: closeElem_def peek_def)
  next
    case False
    with assms c f' show ?thesis
      by (auto simp: closeElem_def peek_def pushingTo_def
          split: if_splits option.splits)
  qed
qed

text \<open>
  Claim C9. \<open>createObject\<close> returns its argument as the call leaves it. For an object
  of type \<open>'Widget'\<close> the \<open>id\<close> of that object is the address \<open>getID()\<close> gives in the
  state before the call; for an object of any other type the \<open>id\<close> is what it was. In
  both cases the object is then resolved: pushed to the array \<open>_closeElem\<close> pushes to,
  or, on an empty stack, its normalized copy is pushed to \<open>result\<close>. A value that is
  not an object is handed to \<open>_closeElem\<close> as it is.
\<close>

theorem createObject_assigns_id_iff_Widget:
  "(createObject s (Obj f) = Inr (obj', s') \<longrightarrow>
      (\<exists>f'. obj' = Obj f'
         \<and> (if otype f = Str ''Widget'' then \<exists>i. getID s = Inr i \<and> oid f' = Some i
              else oid f' = oid f)
         \<and> (if stack s = [] then result s' = result s @ [Obj (processFields f')]
              else \<exists>xs. pushingTo s = Some xs \<and> pushingTo s' = Some (xs @ [Obj f']))))
   \<and> (\<not> isObject x \<longrightarrow> createObject s x = closeElem s x)"
proof (intro conjI impI)
  assume a: "createObject s (Obj f) = Inr (obj', s')"
  show "\<exists>f'. obj' = Obj f'
         \<and> (if otype f = Str ''Widget'' then \<exists>i. getID s = Inr i \<and> oid f' = Some i
              else oid f' = oid f)
         \<and> (if stack s = [] then result s' = result s @ [Obj (processFields f')]
              else \<exists>xs. pushingTo s = Some xs \<and> pushingTo s' = Some (xs @ [Obj f']))"
  proof (cases "otype f = Str ''Widget''")
    case True
    with a obtain i where i: "getID s = Inr i"
      and c: "closeElem s (Obj (set_id (Some i) f)) = Inr (obj', s')"
      by (auto simp: createObject_def split: sum.splits)
    from closeElem_Obj [OF c] True i show ?thesis
      by auto
  next
    case False
    with a have c: "closeElem s (Obj f) = Inr (obj', s')"
      by (auto simp: createObject_def)
    from closeElem_Obj [OF c] False show ?thesis
      by auto
  qed
next
  assume "\<not> isObject x"
  then show "createObject s x = closeElem s x"
    by (cases x) (auto simp: createObject_def)
qed

theorem createObject_assigns_id_iff_Widget_witness:
  "createObject
      \<lparr>startID = [], result = [],
         stack = [JSObj (Some [Str ''a'']) (Num SECTION) (Some ''0'') Undefined None False
                    (Str ''items'') Undefined],
         logged = []\<rparr>
      (Obj (JSObj None (Str ''Widget'') None Undefined None False Undefined Undefined))
    = Inr (Obj (JSObj None (Str ''Widget'') (Some ''0.1'') Undefined None False Undefined Undefined),
        \<lparr>startID = [], result = [],
           stack = [JSObj (Some [Str ''a'', Obj (JSObj None (Str ''Widget'') (Some ''0.1'')
                      Undefined None False Undefined Undefined)])
                      (Num SECTION) (Some ''0'') Undefined None False (Str ''items'') Undefined],
           logged = []\<rparr>)
   \<and> (\<exists>f'. Obj (JSObj None (Str ''Widget'') (Some ''0.1'') Undefined None False Undefined
               Undefined) = Obj f'
          \<and> (\<exists>i. getID \<lparr>startID = [], result = [],
                 stack = [JSObj (Some [Str ''a'']) (Num SECTION) (Some ''0'') Undefined None False
                            (Str ''items'') Undefined],
                 logged = []\<rparr> = Inr i \<and> oid f' = Some i))"
proof -
  let ?sec = "JSObj (Some [Str ''a'']) (Num SECTION) (Some ''0'') Undefined None False
                (Str ''items'') Undefined"
  let ?wid = "JSObj None (Str ''Widget'') None Undefined None False Undefined Undefined"
  let ?wid' = "JSObj None (Str ''Widget'') (Some ''0.1'') Undefined None False Undefined Undefined"
  let ?s = "\<lparr>startID = [], result = [], stack = [?sec], logged = []\<rparr>"
  let ?s' = "\<lparr>startID = [], result = [],
               stack = [JSObj (Some [Str ''a'', Obj ?wid']) (Num SECTION) (Some ''0'') Undefined
                          None False (Str ''items'') Undefined],
               logged = []\<rparr>"
  have h: "createObject ?s (Obj ?wid) = Inr (Obj ?wid', ?s')"
    by (simp add: createObject_def getID_def peek_def closeElem_def
        closeChildren_def set_id_def set_children_def types_defs string_of_nat.simps)
  from createObject_assigns_id_iff_Widget [of ?s ?wid "Obj ?wid'" ?s' Null] h
  show ?thesis
    by simp
qed

subsection \<open>Mismatch recovery\<close>

lemma processObject_ok:
  "c \<noteq> Undefined \<Longrightarrow> c \<noteq> Null \<Longrightarrow>
     \<exists>c'. processObject c = Inr c' \<and> c' \<noteq> Undefined \<and> c' \<noteq> Null"
  by (cases c) auto

lemma processChildren_ok:
  "Undefined \<notin> set cs \<Longrightarrow> Null \<notin> set cs \<Longrightarrow>
     \<exists>cs'. processChildren cs = Inr cs' \<and> Undefined \<notin> set cs' \<and> Null \<notin> set cs'"
proof (induction cs)
  case Nil
  then show ?case by simp
next
  case (Cons c cs)
  then obtain cs' where cs': "processChildren cs = Inr cs'" "Undefined \<notin> set cs'" "Null \<notin> set cs'"
    by auto
  from Cons.prems obtain c' where "processObject c = Inr c'" "c' \<noteq> Undefined" "c' \<noteq> Null"
    using processObject_ok [of c] by auto
  with cs' show ?case by auto
qed

lemma closeChildren_wf:
  assumes "wfFrame f"
  shows "\<exists>f'. closeChildren (Obj f) = Inr (Obj f') \<and> wfFrame f' \<and> tagName f' = tagName f
           \<and> oid f' = oid f"
proof -
  from assms obtain cs where cs: "children f = Some cs" "Undefined \<notin> set cs" "Null \<notin> set cs"
    by (auto simp: wfFrame_def split: option.splits)
  then obtain cs' where "processChildren cs = Inr cs'" "Undefined \<notin> set cs'" "Null \<notin> set cs'"
    using processChildren_ok by blast
  with cs assms show ?thesis
    by (auto simp: closeChildren_def wfFrame_def)
qed

lemma pushOrCombine_no_nullish:
  "Undefined \<notin> set xs \<Longrightarrow> Null \<notin> set xs \<Longrightarrow> obj \<noteq> Undefined \<Longrightarrow> obj \<noteq> Null \<Longrightarrow>
     Undefined \<notin> set (pushOrCombine xs obj) \<and> Null \<notin> set (pushOrCombine xs obj)"
  by (auto simp: pushOrCombine_def split: item.splits dest: in_set_butlastD)

text \<open>Resolving a well-formed frame into a well-formed stack.\<close>

lemma closeElem_wf:
  assumes "\<forall>f\<in>set (stack s). wfFrame f" and "wfFrame oe"
  shows "\<exists>obj s'. closeElem s (Obj oe) = Inr (obj, s') \<and> logged s' = logged s
           \<and> (\<forall>f\<in>set (stack s'). wfFrame f)
           \<and> map tagName (stack s') = map tagName (stack s)
           \<and> butlast (stack s') = butlast (stack s)"
proof -
  from closeChildren_wf [OF assms(2)] obtain f' where
    f': "closeChildren (Obj oe) = Inr (Obj f')" "wfFrame f'"
    by blast
  show ?thesis
  proof (cases "stack s = []")
    case True
    with f' show ?thesis
      by (simp add: closeElem_def peek_def)
  next
    case False
    then have st: "stack s = butlast (stack s) @ [last (stack s)]"
      by simp
    from False assms(1) have wl: "wfFrame (last (stack s))"
      by simp
    have wb: "\<forall>f\<in>set (butlast (stack s)). wfFrame f"
      using assms(1) by (auto dest: in_set_butlastD)
    have mt: "map tagName (butlast (stack s)) @ [tagName (last (stack s))] = map tagName (stack s)"
      by (subst (3) st) (simp del: append_butlast_last_id)
    from wl obtain cs where cs: "children (last (stack s)) = Some cs"
      "Undefined \<notin> set cs" "Null \<notin> set cs"
      by (auto simp: wfFrame_def split: option.splits)
    show ?thesis
    proof (cases "otype (last (stack s)) = Num ELEMENT \<and> isOpen (last (stack s))")
      case True
      with wl obtain as where "attributes (last (stack s)) = Some as"
        by (auto simp: wfFrame_def split: option.splits)
      with True False f' wl wb mt show ?thesis
        by (auto simp: closeElem_def peek_def wfFrame_def split: option.splits)
    next
      case ne: False
      have "wfFrame (set_children (Some (pushOrCombine cs (Obj f'))) (last (stack s)))"
        using wl cs pushOrCombine_no_nullish [of cs "Obj f'"]
        by (auto simp: wfFrame_def)
      with ne False f' cs wb mt show ?thesis
        by (auto simp: closeElem_def peek_def)
    qed
  qed
qed

lemma rev_last_butlast: "xs \<noteq> [] \<Longrightarrow> rev xs = last xs # rev (butlast xs)"
  by (induction xs rule: rev_induct) auto

text \<open>What \<open>_closeElem\<close> does with a well-formed frame.\<close>

lemma finalized_wf:
  assumes "wfFrame f"
  shows "closeChildren (Obj f) = Inr (Obj (finalized f))" and "wfFrame (finalized f)"
    and "tagName (finalized f) = tagName f"
proof -
  from closeChildren_wf [OF assms] obtain f' where
    f': "closeChildren (Obj f) = Inr (Obj f')" "wfFrame f'" "tagName f' = tagName f"
    by blast
  then have "finalized f = f'"
    by (simp add: finalized_def)
  with f' show "closeChildren (Obj f) = Inr (Obj (finalized f))" "wfFrame (finalized f)"
    "tagName (finalized f) = tagName f"
    by simp_all
qed

lemma adopt_wf:
  assumes "wfFrame p"
  shows "wfFrame (adopt p c)" and "tagName (adopt p c) = tagName p"
  using assms by (auto simp: adopt_def wfFrame_def split: option.splits)

lemma closeElem_onto_frame:
  assumes "stack s = st @ [p]" and "wfFrame p" and "wfFrame oe"
  shows "closeElem s (Obj oe) =
           Inr (Obj (finalized oe), s\<lparr>stack := st @ [adopt p (finalized oe)]\<rparr>)"
proof -
  note c = finalized_wf(1) [OF assms(3)]
  from assms(2) obtain cs where cs: "children p = Some cs"
    by (auto simp: wfFrame_def split: option.splits)
  show ?thesis
  proof (cases "otype p = Num ELEMENT \<and> isOpen p")
    case True
    with assms(2) obtain as where "attributes p = Some as"
      by (auto simp: wfFrame_def split: option.splits)
    with True c assms(1) show ?thesis
      by (simp add: closeElem_def peek_def adopt_def)
  next
    case False
    then have o: "(otype p = Num ELEMENT \<and> isOpen p) = False"
      by simp
    from c assms(1) cs show ?thesis
      by (simp add: closeElem_def peek_def adopt_def o)
  qed
qed

lemma closeElem_onto_result:
  assumes "stack s = []" and "wfFrame oe"
  shows "closeElem s (Obj oe) =
           Inr (Obj (finalized oe),
                s\<lparr>result := result s @ [Obj (processFields (finalized oe))]\<rparr>)"
  using finalized_wf(1) [OF assms(2)] assms(1) by (simp add: closeElem_def peek_def)

lemma tagMatches_append:
  "k < length xs \<Longrightarrow> tagMatches same tag (xs @ ys) k = tagMatches same tag xs k"
  by (simp add: tagMatches_def nth_append)

lemma tagMatches_last:
  "tagMatches same tag (xs @ [x]) (length xs) = strictEq (same (length xs)) (tagName x) tag"
  by (simp add: tagMatches_def)

text \<open>The loop when no frame has the request's tag name.\<close>

lemma closeLoop_nomatch:
  assumes "list_all wfFrame (st @ [oe])" and "stack s = st"
    and "\<forall>k<length (st @ [oe]). \<not> tagMatches same tag (st @ [oe]) k"
  shows "closeLoop same tag s (Some oe) =
           Inr (None, s\<lparr>result := result s @ [Obj (processFields (finalized (nest (rev (st @ [oe])))))],
                        stack := []\<rparr>)"
  using assms
proof (induction st arbitrary: s oe rule: rev_induct)
  case Nil
  then have w: "wfFrame oe" and n: "\<not> strictEq (same 0) (tagName oe) tag"
    by (simp_all add: tagMatches_def)
  from closeElem_onto_result [OF _ w, of s] Nil(2) have
    c: "closeElem s (Obj oe) =
          Inr (Obj (finalized oe), s\<lparr>result := result s @ [Obj (processFields (finalized oe))]\<rparr>)"
    by simp
  from Nil(2) n c show ?case
    by (simp add: closeLoop.simps [of same tag s "Some oe"] popElement_def
        closeLoop.simps [of same tag _ None])
next
  case (snoc p st)
  let ?oe' = "adopt p (finalized oe)"
  let ?s2 = "s\<lparr>stack := st\<rparr>"
  from snoc.prems(1) have w: "wfFrame oe" "wfFrame p" "list_all wfFrame st"
    by simp_all
  have w': "wfFrame ?oe'" and t': "tagName ?oe' = tagName p"
    using adopt_wf [OF w(2)] by simp_all
  from snoc.prems(3) have n: "\<not> strictEq (same (length (stack s))) (tagName oe) tag"
    using tagMatches_last [of same tag "st @ [p]" oe] snoc.prems(2) by simp
  have c: "closeElem s (Obj oe) = Inr (Obj (finalized oe), s\<lparr>stack := st @ [?oe']\<rparr>)"
    using closeElem_onto_frame [OF snoc.prems(2) w(2) w(1)] .
  have step: "closeLoop same tag s (Some oe) = closeLoop same tag ?s2 (Some ?oe')"
    using n c by (simp add: closeLoop.simps [of same tag s "Some oe"] popElement_def)
  have nm: "\<forall>k<length (st @ [?oe']). \<not> tagMatches same tag (st @ [?oe']) k"
  proof (intro allI impI)
    fix k
    assume k: "k < length (st @ [?oe'])"
    then have k2: "k < length ((st @ [p]) @ [oe])" and k3: "k < length (st @ [p])"
      by simp_all
    from snoc.prems(3) k2 have "\<not> tagMatches same tag ((st @ [p]) @ [oe]) k"
      by blast
    then have "\<not> tagMatches same tag (st @ [p]) k"
      using tagMatches_append [OF k3, of same tag "[oe]"] by simp
    then show "\<not> tagMatches same tag (st @ [?oe']) k"
      using k t' by (cases "k = length st") (simp_all add: tagMatches_def nth_append)
  qed
  have "closeLoop same tag ?s2 (Some ?oe') =
      Inr (None, ?s2\<lparr>result := result ?s2 @ [Obj (processFields (finalized (nest (rev (st @ [?oe'])))))],
                      stack := []\<rparr>)"
    using w' w(3) nm by (intro snoc.IH) simp_all
  with step show ?case
    by simp
qed

text \<open>The loop when the frame \<open>m\<close>, below the frame popped last, is the first to match.\<close>

lemma closeLoop_match:
  fixes below above :: "frame list"
  assumes "list_all wfFrame (below @ m # above @ [oe])" and "stack s = below @ m # above"
    and "tagMatches same tag (below @ m # above @ [oe]) (length below)"
    and "\<forall>k. length below < k \<and> k < length (below @ m # above @ [oe])
           \<longrightarrow> \<not> tagMatches same tag (below @ m # above @ [oe]) k"
  shows "closeLoop same tag s (Some oe) =
           Inr (Some (nest (rev (m # above @ [oe]))), s\<lparr>stack := below\<rparr>)"
  using assms
proof (induction above arbitrary: s oe rule: rev_induct)
  case Nil
  let ?oe' = "adopt m (finalized oe)"
  let ?s2 = "s\<lparr>stack := below\<rparr>"
  from Nil(1) have w: "wfFrame oe" "wfFrame m"
    by simp_all
  have t': "tagName ?oe' = tagName m"
    using adopt_wf [OF w(2)] by simp
  from Nil(4) have "\<not> tagMatches same tag ((below @ [m]) @ [oe]) (length (below @ [m]))"
    by simp
  then have n: "\<not> strictEq (same (length (stack s))) (tagName oe) tag"
    using Nil(2) by (simp only: tagMatches_last) simp
  from Nil(3) have m: "strictEq (same (length below)) (tagName m) tag"
    by (simp add: tagMatches_def nth_append)
  have c: "closeElem s (Obj oe) = Inr (Obj (finalized oe), s\<lparr>stack := below @ [?oe']\<rparr>)"
    using w Nil(2) by (intro closeElem_onto_frame) simp_all
  have step: "closeLoop same tag s (Some oe) = closeLoop same tag ?s2 (Some ?oe')"
    using n c by (simp add: closeLoop.simps [of same tag s "Some oe"] popElement_def)
  from m t' have "closeLoop same tag ?s2 (Some ?oe') = Inr (Some ?oe', ?s2)"
    by (simp add: closeLoop.simps [of same tag ?s2 "Some ?oe'"])
  with step show ?case
    by simp
next
  case (snoc a above)
  let ?oe' = "adopt a (finalized oe)"
  let ?s2 = "s\<lparr>stack := below @ m # above\<rparr>"
  let ?full = "below @ m # (above @ [a]) @ [oe]"
  from snoc.prems(1) have w: "wfFrame oe" "wfFrame a" "list_all wfFrame (below @ m # above)"
    by simp_all
  have w': "wfFrame ?oe'" and t': "tagName ?oe' = tagName a"
    using adopt_wf [OF w(2)] by simp_all
  have full: "?full = (below @ m # above @ [a]) @ [oe]"
    by simp
  from snoc.prems(4) have "\<not> tagMatches same tag ?full (length (below @ m # above @ [a]))"
    by simp
  then have n: "\<not> strictEq (same (length (stack s))) (tagName oe) tag"
    using snoc.prems(2) unfolding full by (simp only: tagMatches_last) simp
  have c: "closeElem s (Obj oe) = Inr (Obj (finalized oe), s\<lparr>stack := (below @ m # above) @ [?oe']\<rparr>)"
    using w snoc.prems(2) by (intro closeElem_onto_frame) simp_all
  have step: "closeLoop same tag s (Some oe) = closeLoop same tag ?s2 (Some ?oe')"
    using n c
    by (simp add: closeLoop.simps [of same tag s "Some oe"] popElement_def butlast_append)
  have names: "map tagName (below @ m # above @ [?oe']) = map tagName (below @ m # above @ [a])"
    using t' by simp
  have same_names: "tagMatches same tag (below @ m # above @ [?oe']) k = tagMatches same tag ?full k"
    if "k < length (below @ m # above @ [a])" for k
  proof -
    from that have "tagName ((below @ m # above @ [?oe']) ! k) = tagName ((below @ m # above @ [a]) ! k)"
      using names by (metis length_map nth_map)
    moreover from that have "?full ! k = (below @ m # above @ [a]) ! k"
      unfolding full by (simp only: nth_append if_True)
    ultimately show ?thesis
      by (simp add: tagMatches_def)
  qed
  have m': "tagMatches same tag (below @ m # above @ [?oe']) (length below)"
    using snoc.prems(3) same_names [of "length below"] by simp
  have nm: "\<forall>k. length below < k \<and> k < length (below @ m # above @ [?oe'])
      \<longrightarrow> \<not> tagMatches same tag (below @ m # above @ [?oe']) k"
  proof (intro allI impI)
    fix k
    assume k: "length below < k \<and> k < length (below @ m # above @ [?oe'])"
    then have "\<not> tagMatches same tag ?full k"
      using snoc.prems(4) by simp
    with k show "\<not> tagMatches same tag (below @ m # above @ [?oe']) k"
      using same_names [of k] by simp
  qed
  have "closeLoop same tag ?s2 (Some ?oe') =
      Inr (Some (nest (rev (m # above @ [?oe']))), ?s2\<lparr>stack := below\<rparr>)"
    using w' w(3) m' nm by (intro snoc.IH) simp_all
  with step show ?case
    by simp
qed

text \<open>
  The mismatch branch of \<open>closeElement\<close>: one diagnostic, then the loop on the popped
  top frame.
\<close>

lemma popElement_warn:
  assumes "stack s \<noteq> []"
  shows "popElement (warn msg s) =
           (Some (last (stack s)), s\<lparr>stack := butlast (stack s), logged := logged s @ [msg]\<rparr>)"
  using assms by (simp add: popElement_def warn_def)

lemma closeElement_mismatch_step:
  assumes "peek s = Some openElem" and "oid openElem \<noteq> oid c"
    and "closeLoop same (tagName c)
           (s\<lparr>stack := butlast (stack s),
              logged := logged s @ [mismatchMessage (tagName c) (oid openElem) (oid c)]\<rparr>)
           (Some (last (stack s))) = Inr (oe', s')"
  shows "closeElement same s c = Inr s'"
proof -
  let ?msg = "mismatchMessage (tagName c) (oid openElem) (oid c)"
  from assms(1) have ne: "stack s \<noteq> []"
    by (auto simp: peek_def split: if_splits)
  have "closeElement same s c =
      (case closeLoop same (tagName c) (snd (popElement (warn ?msg s)))
              (fst (popElement (warn ?msg s))) of
         Inl e \<Rightarrow> Inl e
       | Inr (openElem', s') \<Rightarrow> Inr s')"
    using assms(1,2) by (simp add: closeElement.simps [of same s c] Let_def)
  then show ?thesis
    by (simp only: popElement_warn [OF ne] fst_conv snd_conv assms(3)) simp
qed

lemma closeElement_nomatch:
  assumes "list_all wfFrame (stack s)" and "peek s = Some openElem"
    and "oid openElem \<noteq> oid c"
    and "\<forall>k<length (stack s). \<not> tagMatches same (tagName c) (stack s) k"
  shows "closeElement same s c =
           Inr (s\<lparr>result := result s @ [Obj (processFields (finalized (nest (rev (stack s)))))],
                  stack := [],
                  logged := logged s @ [mismatchMessage (tagName c) (oid openElem) (oid c)]\<rparr>)"
proof -
  let ?msg = "mismatchMessage (tagName c) (oid openElem) (oid c)"
  let ?s0 = "s\<lparr>stack := butlast (stack s), logged := logged s @ [?msg]\<rparr>"
  from assms(2) have ne: "stack s \<noteq> []"
    by (auto simp: peek_def split: if_splits)
  then have st: "butlast (stack s) @ [last (stack s)] = stack s"
    by simp
  have "closeLoop same (tagName c) ?s0 (Some (last (stack s))) =
      Inr (None, ?s0\<lparr>result := result ?s0 @
             [Obj (processFields (finalized (nest (rev (butlast (stack s) @ [last (stack s)])))))],
           stack := []\<rparr>)"
    using assms(1,4) by (intro closeLoop_nomatch) (simp_all only: st, simp_all)
  then have "closeElement same s c =
      Inr (?s0\<lparr>result := result ?s0 @
             [Obj (processFields (finalized (nest (rev (butlast (stack s) @ [last (stack s)])))))],
           stack := []\<rparr>)"
    by (rule closeElement_mismatch_step [OF assms(2,3)])
  then show ?thesis
    by (simp only: st) simp
qed

lemma closeElement_match:
  fixes below above :: "frame list"
  assumes "list_all wfFrame (stack s)" and "peek s = Some openElem"
    and "oid openElem \<noteq> oid c"
    and "stack s = below @ m # above"
    and "tagMatches same (tagName c) (stack s) (length below)"
    and "\<forall>k. length below < k \<and> k < length (stack s)
           \<longrightarrow> \<not> tagMatches same (tagName c) (stack s) k"
  shows "closeLoop same (tagName c)
           (s\<lparr>stack := butlast (stack s),
              logged := logged s @ [mismatchMessage (tagName c) (oid openElem) (oid c)]\<rparr>)
           (Some (last (stack s)))
         = Inr (Some (nest (rev (m # above))),
                s\<lparr>stack := below,
                   logged := logged s @ [mismatchMessage (tagName c) (oid openElem) (oid c)]\<rparr>)"
proof (cases above rule: rev_cases)
  case Nil
  let ?msg = "mismatchMessage (tagName c) (oid openElem) (oid c)"
  let ?s0 = "s\<lparr>stack := butlast (stack s), logged := logged s @ [?msg]\<rparr>"
  from Nil assms(4) have st: "stack s = below @ [m]"
    by simp
  with assms(5) have "strictEq (same (length (stack ?s0))) (tagName m) (tagName c)"
    by (simp add: tagMatches_def)
  then have "closeLoop same (tagName c) ?s0 (Some m) = Inr (Some m, ?s0)"
    by (simp add: closeLoop.simps [of same "tagName c" ?s0 "Some m"])
  with st Nil show ?thesis
    by simp
next
  case (snoc ab oe)
  let ?msg = "mismatchMessage (tagName c) (oid openElem) (oid c)"
  let ?s0 = "s\<lparr>stack := butlast (stack s), logged := logged s @ [?msg]\<rparr>"
  from snoc assms(4) have st: "stack s = below @ m # ab @ [oe]"
    by simp
  then have bl: "butlast (stack s) = below @ m # ab" and la: "last (stack s) = oe"
    by (simp_all add: butlast_append)
  have "closeLoop same (tagName c) ?s0 (Some oe) =
      Inr (Some (nest (rev (m # ab @ [oe]))), ?s0\<lparr>stack := below\<rparr>)"
    using assms(1,5,6) unfolding st by (intro closeLoop_match) (simp_all add: butlast_append)
  with la snoc show ?thesis
    by simp
qed

text \<open>Every close request on a stack of well-formed frames returns.\<close>

lemma closeLoop_returns:
  "list_all wfFrame (stack s) \<Longrightarrow> (\<forall>oe. openElem = Some oe \<longrightarrow> wfFrame oe) \<Longrightarrow>
     \<exists>r. closeLoop same tag s openElem = Inr r"
proof (induction same tag s openElem rule: closeLoop.induct)
  case (1 same tag s openElem)
  show ?case
  proof (cases openElem)
    case None
    then show ?thesis by (simp add: closeLoop.simps)
  next
    case (Some oe)
    show ?thesis
    proof (cases "strictEq (same (length (stack s))) (tagName oe) tag")
      case True
      with Some show ?thesis by (simp add: closeLoop.simps)
    next
      case False
      from "1.prems" Some have woe: "wfFrame oe" by simp
      from "1.prems"(1) have wf: "\<forall>f\<in>set (stack s). wfFrame f"
        by (simp add: list_all_iff)
      from closeElem_wf [OF wf woe] obtain obj s1 where
        c: "closeElem s (Obj oe) = Inr (obj, s1)"
        and w1: "\<forall>f\<in>set (stack s1). wfFrame f"
        by blast
      have w2: "list_all wfFrame (stack (snd (popElement s1)))"
        using w1 by (auto simp: popElement_def list_all_iff dest: in_set_butlastD)
      have w3: "\<forall>oe'. fst (popElement s1) = Some oe' \<longrightarrow> wfFrame oe'"
        using w1 by (auto simp: popElement_def split: if_splits)
      from "1.IH" [OF Some False c refl w2 w3] obtain r where
        "closeLoop same tag (snd (popElement s1)) (fst (popElement s1)) = Inr r"
        by blast
      with c False Some show ?thesis
        by (simp add: closeLoop.simps [of same tag s "Some oe"])
    qed
  qed
qed

lemma closeElement_returns:
  assumes "list_all wfFrame (stack s)"
  shows "\<exists>s'. closeElement same s c = Inr s'"
proof (cases "peek s")
  case None
  then have "stack s = []"
    by (simp add: peek_def split: if_splits)
  then show ?thesis
    by (simp add: closeElement_empty_stack)
next
  case (Some openElem)
  from Some have ne: "stack s \<noteq> []" and top: "openElem = last (stack s)"
    by (auto simp: peek_def split: if_splits)
  have wf: "\<forall>f\<in>set (stack s). wfFrame f"
    using assms by (simp add: list_all_iff)
  show ?thesis
  proof (cases "oid openElem = oid c")
    case False
    let ?s0 = "s\<lparr>stack := butlast (stack s),
        logged := logged s @ [mismatchMessage (tagName c) (oid openElem) (oid c)]\<rparr>"
    have "list_all wfFrame (stack ?s0)"
      using wf by (auto simp: list_all_iff dest: in_set_butlastD)
    moreover have "\<forall>oe. Some (last (stack s)) = Some oe \<longrightarrow> wfFrame oe"
      using wf ne by simp
    ultimately obtain r where
      "closeLoop same (tagName c) ?s0 (Some (last (stack s))) = Inr r"
      using closeLoop_returns by blast
    then show ?thesis
      using closeElement_mismatch_step [OF Some False, of same "fst r" "snd r"] by auto
  next
    case True
    have w2: "\<forall>f\<in>set (stack (snd (popElement s))). wfFrame f"
      using wf by (auto simp: popElement_def dest: in_set_butlastD)
    have w3: "wfFrame (last (stack s))"
      using wf ne by simp
    from closeElem_wf [OF w2 w3] obtain obj s' where
      "closeElem (snd (popElement s)) (Obj (last (stack s))) = Inr (obj, s')"
      by blast
    with Some True ne show ?thesis
      by (simp add: closeElement.simps [of same s c] popElement_def)
  qed
qed

text \<open>
  Claim C2, as amended. \<open>closeElement\<close> is a total function: its loop ends, the stack
  being one frame shorter at every turn; and on a stack of frames as the builder makes
  them it returns normally, whatever the close request. When the top frame's address is
  not the request's, it emits exactly one diagnostic, which names the tag, the top
  frame's address and the request's, and pops frames from the top. Every popped frame
  whose tag name is not the request's is finalized (its children normalized) and
  resolved into the frame below it, and the bottom frame of the stack into \<open>result\<close>;
  the first frame whose tag name is the request's is popped too, and the loop stops
  there.

  When no frame has the request's tag name, the stack is left empty and \<open>result\<close> has
  received exactly one entry: the normalized bottom frame, in which the frames that
  were above it are nested, each finalized, one within the other. When some frame has
  the request's tag name, let \<open>m\<close> be the topmost such frame, \<open>above\<close> the frames
  above it and \<open>below\<close> the frames below it: the loop stops at \<open>m\<close>, which by then
  holds the frames of \<open>above\<close>, nested and finalized, and the stack is left as
  \<open>below\<close>, so its new top need not have the request's tag name.
\<close>

theorem closeElement_mismatch_unwinds:
  assumes "list_all wfFrame (stack s)"
  shows "(\<exists>s'. closeElement same s c = Inr s')
    \<and> (\<forall>openElem. peek s = Some openElem \<and> oid openElem \<noteq> oid c \<longrightarrow>
         ((\<forall>k<length (stack s). \<not> tagMatches same (tagName c) (stack s) k) \<longrightarrow>
            closeElement same s c =
              Inr (s\<lparr>result := result s @ [Obj (processFields (finalized (nest (rev (stack s)))))],
                     stack := [],
                     logged := logged s @ [mismatchMessage (tagName c) (oid openElem) (oid c)]\<rparr>))
       \<and> (\<forall>below m above.
            stack s = below @ m # above
              \<and> tagMatches same (tagName c) (stack s) (length below)
              \<and> (\<forall>k. length below < k \<and> k < length (stack s)
                    \<longrightarrow> \<not> tagMatches same (tagName c) (stack s) k)
            \<longrightarrow> closeLoop same (tagName c)
                   (snd (popElement (warn (mismatchMessage (tagName c) (oid openElem) (oid c)) s)))
                   (fst (popElement (warn (mismatchMessage (tagName c) (oid openElem) (oid c)) s)))
                 = Inr (Some (nest (rev (m # above))),
                        s\<lparr>stack := below,
                           logged := logged s @ [mismatchMessage (tagName c) (oid openElem) (oid c)]\<rparr>)
               \<and> closeElement same s c =
                   Inr (s\<lparr>stack := below,
                          logged := logged s @ [mismatchMessage (tagName c) (oid openElem) (oid c)]\<rparr>)))"
proof (intro conjI allI impI)
  show "\<exists>s'. closeElement same s c = Inr s'"
    using assms by (rule closeElement_returns)
next
  fix openElem
  assume "peek s = Some openElem \<and> oid openElem \<noteq> oid c"
    and "\<forall>k<length (stack s). \<not> tagMatches same (tagName c) (stack s) k"
  then show "closeElement same s c =
      Inr (s\<lparr>result := result s @ [Obj (processFields (finalized (nest (rev (stack s)))))],
             stack := [],
             logged := logged s @ [mismatchMessage (tagName c) (oid openElem) (oid c)]\<rparr>)"
    using closeElement_nomatch [OF assms] by blast
next
  fix openElem below m above
  assume p: "peek s = Some openElem \<and> oid openElem \<noteq> oid c"
    and m: "stack s = below @ m # above
      \<and> tagMatches same (tagName c) (stack s) (length below)
      \<and> (\<forall>k. length below < k \<and> k < length (stack s)
            \<longrightarrow> \<not> tagMatches same (tagName c) (stack s) k)"
  from p have p1: "peek s = Some openElem" and p2: "oid openElem \<noteq> oid c"
    by simp_all
  from p1 have ne: "stack s \<noteq> []"
    by (auto simp: peek_def split: if_splits)
  from m have l: "closeLoop same (tagName c)
      (s\<lparr>stack := butlast (stack s),
         logged := logged s @ [mismatchMessage (tagName c) (oid openElem) (oid c)]\<rparr>)
      (Some (last (stack s)))
    = Inr (Some (nest (rev (m # above))),
           s\<lparr>stack := below,
              logged := logged s @ [mismatchMessage (tagName c) (oid openElem) (oid c)]\<rparr>)"
    using closeElement_match [OF assms p1 p2] by blast
  then show "closeLoop same (tagName c)
      (snd (popElement (warn (mismatchMessage (tagName c) (oid openElem) (oid c)) s)))
      (fst (popElement (warn (mismatchMessage (tagName c) (oid openElem) (oid c)) s)))
    = Inr (Some (nest (rev (m # above))),
           s\<lparr>stack := below,
              logged := logged s @ [mismatchMessage (tagName c) (oid openElem) (oid c)]\<rparr>)"
    by (simp only: popElement_warn [OF ne] fst_conv snd_conv)
  from l show "closeElement same s c =
      Inr (s\<lparr>stack := below,
             logged := logged s @ [mismatchMessage (tagName c) (oid openElem) (oid c)]\<rparr>)"
    by (rule closeElement_mismatch_step [OF p1 p2])
qed

theorem closeElement_mismatch_unwinds_witness:
  "list_all wfFrame (stack \<lparr>startID = [], result = [],
      stack = [JSObj (Some []) (Num ELEMENT) (Some ''0'') (Str ''ul'') (Some []) False Undefined Undefined,
               JSObj (Some []) (Num ELEMENT) (Some ''0.0'') (Str ''div'') (Some []) False Undefined Undefined,
               JSObj (Some []) (Num ELEMENT) (Some ''0.0.0'') (Str ''img'') (Some []) False Undefined Undefined],
      logged = []\<rparr>)
   \<and> closeLoop (\<lambda>k. False) (Str ''div'')
        \<lparr>startID = [], result = [],
           stack = [JSObj (Some []) (Num ELEMENT) (Some ''0'') (Str ''ul'') (Some []) False Undefined Undefined,
                    JSObj (Some []) (Num ELEMENT) (Some ''0.0'') (Str ''div'') (Some []) False Undefined Undefined],
           logged = [''div tags improperly paired, closing 0.0.0 with close tag from 0.0'']\<rparr>
        (Some (JSObj (Some []) (Num ELEMENT) (Some ''0.0.0'') (Str ''img'') (Some []) False Undefined Undefined))
      = Inr (Some (JSObj (Some [Obj (JSObj (Some []) (Num ELEMENT) (Some ''0.0.0'') (Str ''img'') (Some []) False Undefined Undefined)])
                 (Num ELEMENT) (Some ''0.0'') (Str ''div'') (Some []) False Undefined Undefined),
             \<lparr>startID = [], result = [],
                stack = [JSObj (Some []) (Num ELEMENT) (Some ''0'') (Str ''ul'') (Some []) False Undefined Undefined],
                logged = [''div tags improperly paired, closing 0.0.0 with close tag from 0.0'']\<rparr>)
   \<and> closeElement (\<lambda>k. False) \<lparr>startID = [], result = [],
      stack = [JSObj (Some []) (Num ELEMENT) (Some ''0'') (Str ''ul'') (Some []) False Undefined Undefined,
               JSObj (Some []) (Num ELEMENT) (Some ''0.0'') (Str ''div'') (Some []) False Undefined Undefined,
               JSObj (Some []) (Num ELEMENT) (Some ''0.0.0'') (Str ''img'') (Some []) False Undefined Undefined],
      logged = []\<rparr>
        (JSObj None (Num CLOSING_TAG) (Some ''0.0'') (Str ''div'') None False Undefined Undefined)
      = Inr \<lparr>startID = [], result = [],
               stack = [JSObj (Some []) (Num ELEMENT) (Some ''0'') (Str ''ul'') (Some []) False Undefined Undefined],
               logged = [''div tags improperly paired, closing 0.0.0 with close tag from 0.0'']\<rparr>
   \<and> closeElement (\<lambda>k. False) \<lparr>startID = [], result = [],
      stack = [JSObj (Some []) (Num ELEMENT) (Some ''0'') (Str ''ul'') (Some []) False Undefined Undefined,
               JSObj (Some []) (Num ELEMENT) (Some ''0.0'') (Str ''div'') (Some []) False Undefined Undefined,
               JSObj (Some []) (Num ELEMENT) (Some ''0.0.0'') (Str ''img'') (Some []) False Undefined Undefined],
      logged = []\<rparr>
        (JSObj None (Num CLOSING_TAG) (Some ''0.0'') (Str ''span'') None False Undefined Undefined)
      = Inr \<lparr>startID = [],
               result = [Obj (JSObj (Some [Obj (JSObj (Some [Obj (JSObj None (Num ELEMENT) None (Str ''img'') (Some []) False Undefined Undefined)])
                   (Num ELEMENT) None (Str ''div'') (Some []) False Undefined Undefined)])
                 (Num ELEMENT) None (Str ''ul'') (Some []) False Undefined Undefined)],
               stack = [],
               logged = [''span tags improperly paired, closing 0.0.0 with close tag from 0.0'']\<rparr>"
proof -
  let ?ul = "JSObj (Some []) (Num ELEMENT) (Some ''0'') (Str ''ul'') (Some []) False Undefined Undefined"
  let ?div = "JSObj (Some []) (Num ELEMENT) (Some ''0.0'') (Str ''div'') (Some []) False Undefined Undefined"
  let ?img = "JSObj (Some []) (Num ELEMENT) (Some ''0.0.0'') (Str ''img'') (Some []) False Undefined Undefined"
  let ?s = "\<lparr>startID = [], result = [], stack = [?ul, ?div, ?img], logged = []\<rparr>"
  let ?c = "JSObj None (Num CLOSING_TAG) (Some ''0.0'') (Str ''div'') None False Undefined Undefined"
  let ?c2 = "JSObj None (Num CLOSING_TAG) (Some ''0.0'') (Str ''span'') None False Undefined Undefined"
  have h1: "list_all wfFrame (stack ?s)"
    by (simp add: wfFrame_def)
  have h2: "peek ?s = Some ?img \<and> oid ?img \<noteq> oid ?c"
    by (simp add: peek_def)
  have "\<not> tagMatches (\<lambda>k. False) (tagName ?c) (stack ?s) k" if "length [?ul] < k \<and> k < length (stack ?s)" for k
  proof -
    from that have "k = 2" by simp
    then show ?thesis by (simp add: tagMatches_def strictEq_def)
  qed
  then have h3: "stack ?s = [?ul] @ ?div # [?img]
      \<and> tagMatches (\<lambda>k. False) (tagName ?c) (stack ?s) (length [?ul])
      \<and> (\<forall>k. length [?ul] < k \<and> k < length (stack ?s)
            \<longrightarrow> \<not> tagMatches (\<lambda>k. False) (tagName ?c) (stack ?s) k)"
    by (simp add: tagMatches_def strictEq_def)
  have n: "nest (rev (?div # [?img])) = JSObj (Some [Obj (JSObj (Some []) (Num ELEMENT) (Some ''0.0.0'') (Str ''img'') (Some []) False Undefined Undefined)])
                 (Num ELEMENT) (Some ''0.0'') (Str ''div'') (Some []) False Undefined Undefined"
    by (simp add: adopt_def finalized_def closeChildren_def set_children_def types_defs)
  have g2: "peek ?s = Some ?img \<and> oid ?img \<noteq> oid ?c2"
    by (simp add: peek_def)
  have g3: "\<forall>k<length (stack ?s). \<not> tagMatches (\<lambda>k. False) (tagName ?c2) (stack ?s) k"
  proof (intro allI impI)
    fix k
    assume "k < length (stack ?s)"
    then have "k = 0 \<or> k = 1 \<or> k = 2" by auto
    then show "\<not> tagMatches (\<lambda>k. False) (tagName ?c2) (stack ?s) k"
      by (auto simp: tagMatches_def strictEq_def)
  qed
  have m: "Obj (processFields (finalized (nest (rev (stack ?s))))) = Obj (JSObj (Some [Obj (JSObj (Some [Obj (JSObj None (Num ELEMENT) None (Str ''img'') (Some []) False Undefined Undefined)])
                   (Num ELEMENT) None (Str ''div'') (Some []) False Undefined Undefined)])
                 (Num ELEMENT) None (Str ''ul'') (Some []) False Undefined Undefined)"
    by (simp add: adopt_def finalized_def closeChildren_def set_children_def processFields_def
        keepChildren_def types_defs)
  from closeElement_mismatch_unwinds [OF h1, of "\<lambda>k. False" ?c, THEN conjunct2, rule_format,
      OF h2, THEN conjunct2, rule_format, OF h3]
    closeElement_mismatch_unwinds [OF h1, of "\<lambda>k. False" ?c2, THEN conjunct2, rule_format,
      OF g2, THEN conjunct1, rule_format, OF g3 [rule_format]]
    h1
  show ?thesis
    unfolding n m by (simp add: mismatchMessage_def popElement_def warn_def)
qed

text \<open>
  Claim C2 as stated fails: the frame with the request's tag name is popped as well, so
  what is left on top need not have that tag name. Here the stack holds \<open>ul\<close> and
  \<open>div\<close> and the request closes a \<open>div\<close> of another address: \<open>ul\<close> is left on top.
\<close>

theorem closeElement_mismatch_pops_match_counterexample:
  "(case closeElement (\<lambda>k. False) \<lparr>startID = [], result = [],
      stack = [JSObj (Some []) (Num ELEMENT) (Some ''0'') (Str ''ul'') (Some []) False Undefined Undefined,
               JSObj (Some []) (Num ELEMENT) (Some ''0.0'') (Str ''div'') (Some []) False Undefined Undefined],
      logged = []\<rparr>
        (JSObj None (Num CLOSING_TAG) (Some ''9'') (Str ''div'') None False Undefined Undefined) of
      Inr s' \<Rightarrow> stack s' \<noteq> [] \<and> tagName (last (stack s')) = Str ''ul''
    | Inl e \<Rightarrow> False)"
  by (simp add: closeElement.simps closeLoop.simps peek_def popElement_def warn_def strictEq_def Let_def)


subsection \<open>Adjacent strings are combined\<close>

lemma noAdjacentStrings_snoc:
  "noAdjacentStrings (xs @ [x])
     = (noAdjacentStrings xs \<and> (xs = [] \<or> \<not> (isString (last xs) \<and> isString x)))"
  by (induction xs rule: noAdjacentStrings.induct) auto

lemma noAdjacentStrings_butlast: "noAdjacentStrings xs \<Longrightarrow> noAdjacentStrings (butlast xs)"
  by (induction xs rule: noAdjacentStrings.induct) auto

lemma noAdjacentStrings_last2:
  "noAdjacentStrings xs \<Longrightarrow> butlast xs \<noteq> [] \<Longrightarrow> isString (last xs) \<Longrightarrow>
     \<not> isString (last (butlast xs))"
  by (induction xs rule: noAdjacentStrings.induct) (auto split: if_splits)

lemma noAdjacentStrings_pushOrCombine:
  assumes "noAdjacentStrings xs"
  shows "noAdjacentStrings (pushOrCombine xs obj)"
proof (cases obj)
  case (Str b)
  show ?thesis
  proof (cases "xs = []")
    case True
    with Str show ?thesis by (simp add: pushOrCombine_def)
  next
    case False
    show ?thesis
    proof (cases "last xs")
      case (Str a)
      then have "isString (last xs)" by simp
      with assms have "butlast xs = [] \<or> \<not> isString (last (butlast xs))"
        using noAdjacentStrings_last2 by blast
      with assms False Str \<open>obj = Str b\<close> show ?thesis
        by (auto simp: pushOrCombine_def noAdjacentStrings_snoc noAdjacentStrings_butlast)
    qed (use assms False Str in \<open>auto simp: pushOrCombine_def noAdjacentStrings_snoc\<close>)
  qed
qed (use assms in \<open>auto simp: pushOrCombine_def noAdjacentStrings_snoc\<close>)

lemma closeChildren_not_nullish:
  "closeChildren obj = Inr obj' \<Longrightarrow> obj' \<noteq> Undefined \<and> obj' \<noteq> Null"
  by (auto simp: closeChildren_def split: item.splits option.splits if_splits sum.splits)

lemma list_all_butlast: "list_all P xs \<Longrightarrow> list_all P (butlast xs)"
  by (auto simp: list_all_iff dest: in_set_butlastD)

lemma closeElem_inv:
  assumes "stackInv s" and "closeElem s obj = Inr (obj', s')"
  shows "stackInv s'"
proof -
  from assms(2) obtain o1 where o1: "closeChildren obj = Inr o1"
    by (auto simp: closeElem_def split: sum.splits)
  then have nn: "o1 \<noteq> Undefined" "o1 \<noteq> Null"
    using closeChildren_not_nullish by auto
  show ?thesis
  proof (cases "stack s = []")
    case True
    with assms o1 obtain p where "processObject o1 = Inr p"
      and "s' = s\<lparr>result := pushOrCombine (result s) p\<rparr>"
      by (auto simp: closeElem_def peek_def split: sum.splits)
    with assms(1) show ?thesis
      by (simp add: stackInv_def noAdjacentStrings_pushOrCombine)
  next
    case False
    let ?t = "last (stack s)"
    from False assms(1) have ft: "frameInv ?t"
      by (simp add: stackInv_def list_all_iff)
    show ?thesis
    proof (cases "otype ?t = Num ELEMENT \<and> isOpen ?t")
      case True
      with assms(2) o1 False obtain as where as: "attributes ?t = Some as"
        and s': "s' = s\<lparr>stack := butlast (stack s) @ [set_attributes (Some (pushOrCombine as o1)) ?t]\<rparr>"
        by (auto simp: closeElem_def peek_def split: option.splits)
      from ft as have "frameInv (set_attributes (Some (pushOrCombine as o1)) ?t)"
        by (auto simp: frameInv_def wfFrame_def noAdjacentStrings_pushOrCombine split: option.splits)
      with assms(1) s' show ?thesis
        by (simp add: stackInv_def list_all_butlast)
    next
      case ne: False
      with assms(2) o1 False obtain cs where cs: "children ?t = Some cs"
        and s': "s' = s\<lparr>stack := butlast (stack s) @ [set_children (Some (pushOrCombine cs o1)) ?t]\<rparr>"
        by (auto simp: closeElem_def peek_def split: option.splits)
      from ft cs nn have "frameInv (set_children (Some (pushOrCombine cs o1)) ?t)"
        using pushOrCombine_no_nullish [of cs o1]
        by (auto simp: frameInv_def wfFrame_def noAdjacentStrings_pushOrCombine split: option.splits)
      with assms(1) s' show ?thesis
        by (simp add: stackInv_def list_all_butlast)
    qed
  qed
qed

lemma openElement_inv:
  assumes "stackInv s" and "openElement s type val = Inr (elem, s')"
  shows "stackInv s'"
  using assms
  by (auto simp: openElement_def stackInv_def frameInv_def wfFrame_def Let_def
      split: sum.splits if_splits)

lemma popElement_inv: "stackInv s \<Longrightarrow> stackInv (snd (popElement s))"
  by (auto simp: popElement_def stackInv_def list_all_iff dest: in_set_butlastD)

lemma closeLoop_inv:
  "stackInv s \<Longrightarrow> closeLoop same tag s openElem = Inr (oe', s') \<Longrightarrow> stackInv s'"
proof (induction same tag s openElem rule: closeLoop.induct)
  case (1 same tag s openElem)
  show ?case
  proof (cases openElem)
    case None
    with "1.prems" show ?thesis by (simp add: closeLoop.simps)
  next
    case (Some oe)
    show ?thesis
    proof (cases "strictEq (same (length (stack s))) (tagName oe) tag")
      case True
      with Some "1.prems" show ?thesis by (simp add: closeLoop.simps)
    next
      case False
      with Some "1.prems"(2) obtain obj s1 where c: "closeElem s (Obj oe) = Inr (obj, s1)"
        and l: "closeLoop same tag (snd (popElement s1)) (fst (popElement s1)) = Inr (oe', s')"
        by (auto simp: closeLoop.simps [of same tag s "Some oe"] split: sum.splits)
      from closeElem_inv [OF "1.prems"(1) c] have "stackInv (snd (popElement s1))"
        by (rule popElement_inv)
      from "1.IH" [OF Some False c refl this l] show ?thesis .
    qed
  qed
qed

lemma warn_inv: "stackInv s \<Longrightarrow> stackInv (warn msg s)"
  by (simp add: stackInv_def warn_def)

lemma closeElement_inv:
  "stackInv s \<Longrightarrow> closeElement same s c = Inr s' \<Longrightarrow> stackInv s'"
proof (induction same s c rule: closeElement.induct)
  case (1 same s c)
  show ?case
  proof (cases "peek s")
    case None
    show ?thesis
    proof (cases "tagName c = Str ''p''")
      case True
      with None "1.prems"(2) obtain elem s1 where
        o: "openElement s (Str ''p'') (Obj emptyObj) = Inr (elem, s1)"
        and c: "closeElement same s1 elem = Inr s'"
        by (auto simp: closeElement.simps [of same s c] split: sum.splits)
      from "1.IH" [OF None True o refl openElement_inv [OF "1.prems"(1) o] c]
      show ?thesis .
    next
      case False
      with None "1.prems" show ?thesis
        by (auto simp: closeElement.simps [of same s c] warn_inv)
    qed
  next
    case (Some openElem)
    show ?thesis
    proof (cases "oid openElem = oid c")
      case True
      with Some "1.prems"(2) obtain popped obj where
        "closeElem (snd (popElement s)) (Obj popped) = Inr (obj, s')"
        by (auto simp: closeElement.simps [of same s c] split: option.splits sum.splits)
      with popElement_inv [OF "1.prems"(1)] show ?thesis
        by (rule closeElem_inv)
    next
      case False
      let ?s1 = "warn (mismatchMessage (tagName c) (oid openElem) (oid c)) s"
      from False Some "1.prems"(2) obtain oe' where
        "closeLoop same (tagName c) (snd (popElement ?s1)) (fst (popElement ?s1)) = Inr (oe', s')"
        by (auto simp: closeElement.simps [of same s c] Let_def split: sum.splits)
      with popElement_inv [OF warn_inv [OF "1.prems"(1)]] show ?thesis
        by (rule closeLoop_inv)
    qed
  qed
qed

lemma closeAll_inv: "stackInv s \<Longrightarrow> closeAll same s = Inr s' \<Longrightarrow> stackInv s'"
proof (induction same s rule: closeAll.induct)
  case (1 same s)
  show ?case
  proof (cases "peek s")
    case None
    with "1.prems" show ?thesis by (simp add: closeAll.simps [of same s])
  next
    case (Some t)
    with "1.prems"(2) obtain s1 where c: "closeElement same s t = Inr s1"
      and a: "closeAll same s1 = Inr s'"
      by (auto simp: closeAll.simps [of same s] split: sum.splits)
    from "1.IH" [OF Some c closeElement_inv [OF "1.prems"(1) c] a] show ?thesis .
  qed
qed

lemma reachable_inv: "reachable s \<Longrightarrow> stackInv s"
proof (induction rule: reachable.induct)
  case (new sid)
  show ?case by (simp add: stackInv_def newTemplateStack_def)
next
  case (openElement s type val elem s')
  then show ?case by (blast intro: openElement_inv)
next
  case (setOpen s i b)
  have "frameInv (set_isOpen b f)" if "frameInv f" for f
    using that by (auto simp: frameInv_def wfFrame_def split: option.splits)
  with setOpen show ?case
    by (auto simp: stackInv_def list_all_length nth_list_update)
next
  case (createObject s obj obj' s')
  then show ?case
    by (auto simp: createObject_def split: item.splits if_splits sum.splits intro: closeElem_inv)
next
  case (createComment s tx obj' s')
  then show ?case
    by (auto simp: createComment_def intro: closeElem_inv)
next
  case (popElement s)
  then show ?case by (blast intro: popElement_inv)
next
  case (closeElement s same closingElem s')
  then show ?case by (blast intro: closeElement_inv)
next
  case (getOutput s same out s')
  then show ?case
    by (auto simp: getOutput_def split: sum.splits intro: closeAll_inv)
next
  case (clear s)
  then show ?case by (simp add: stackInv_def clear_def)
qed


lemma reachable_wfFrame: "reachable s \<Longrightarrow> list_all wfFrame (stack s)"
  using reachable_inv [of s] by (auto simp: stackInv_def frameInv_def list_all_iff)

lemma pushOrCombine_strings:
  "xs \<noteq> [] \<Longrightarrow> last xs = Str a \<Longrightarrow> pushOrCombine xs (Str b) = butlast xs @ [Str (a @ b)]"
  by (simp add: pushOrCombine_def)

lemma closeElem_string_combines:
  assumes "pushingTo s = Some xs" and "xs \<noteq> []" and "last xs = Str a"
  shows "\<exists>s'. closeElem s (Str b) = Inr (Str b, s')
           \<and> pushingTo s' = Some (butlast xs @ [Str (a @ b)])"
proof -
  have c: "closeChildren (Str b) = Inr (Str b)"
    by (simp add: closeChildren_def)
  note pc = pushOrCombine_strings [OF assms(2,3), of b]
  show ?thesis
  proof (cases "stack s = []")
    case True
    with assms(1) have "result s = xs"
      by (simp add: pushingTo_def peek_def)
    with True c pc show ?thesis
      by (simp add: closeElem_def peek_def pushingTo_def)
  next
    case False
    show ?thesis
    proof (cases "otype (last (stack s)) = Num ELEMENT \<and> isOpen (last (stack s))")
      case True
      then have o: "(otype (last (stack s)) = Num ELEMENT \<and> isOpen (last (stack s))) = True"
        by simp
      from False assms(1) have "attributes (last (stack s)) = Some xs"
        by (simp add: pushingTo_def peek_def o)
      with False c pc show ?thesis
        by (simp add: closeElem_def peek_def pushingTo_def o)
    next
      case ne: False
      then have o: "(otype (last (stack s)) = Num ELEMENT \<and> isOpen (last (stack s))) = False"
        by simp
      from False assms(1) have "children (last (stack s)) = Some xs"
        by (simp add: pushingTo_def peek_def o)
      with False c pc show ?thesis
        by (simp add: closeElem_def peek_def pushingTo_def o)
    qed
  qed
qed

text \<open>
  Claim C8. In every state a run of builder operations reaches, neither \<open>result\<close> nor
  the \<open>children\<close> of a frame on the stack has two adjacent strings. And whenever a
  string is resolved and the last entry of the array it goes to is a string, that
  entry becomes the concatenation of the two and nothing is appended.
\<close>

theorem builder_no_adjacent_strings:
  "(reachable s \<longrightarrow>
      noAdjacentStrings (result s)
      \<and> (\<forall>f\<in>set (stack s). \<forall>cs. children f = Some cs \<longrightarrow> noAdjacentStrings cs))
   \<and> (pushingTo s = Some xs \<and> xs \<noteq> [] \<and> last xs = Str a \<longrightarrow>
        (\<exists>s'. closeElem s (Str b) = Inr (Str b, s')
           \<and> pushingTo s' = Some (butlast xs @ [Str (a @ b)])))"
proof (intro conjI impI)
  assume "reachable s"
  then have "stackInv s" by (rule reachable_inv)
  then show "noAdjacentStrings (result s)"
    by (simp add: stackInv_def)
  from \<open>stackInv s\<close> show "\<forall>f\<in>set (stack s). \<forall>cs. children f = Some cs \<longrightarrow> noAdjacentStrings cs"
    by (auto simp: stackInv_def frameInv_def list_all_iff)
next
  assume "pushingTo s = Some xs \<and> xs \<noteq> [] \<and> last xs = Str a"
  then show "\<exists>s'. closeElem s (Str b) = Inr (Str b, s')
           \<and> pushingTo s' = Some (butlast xs @ [Str (a @ b)])"
    using closeElem_string_combines by blast
qed

theorem builder_no_adjacent_strings_witness:
  "reachable \<lparr>startID = [], result = [],
      stack = [JSObj (Some [Str ''a'']) (Num SECTION) (Some ''0'') Undefined None False
                 (Str ''items'') Undefined],
      logged = []\<rparr>
   \<and> pushingTo \<lparr>startID = [], result = [],
      stack = [JSObj (Some [Str ''a'']) (Num SECTION) (Some ''0'') Undefined None False
                 (Str ''items'') Undefined],
      logged = []\<rparr> = Some [Str ''a'']
   \<and> (\<exists>s'. closeElem \<lparr>startID = [], result = [],
          stack = [JSObj (Some [Str ''a'']) (Num SECTION) (Some ''0'') Undefined None False
                     (Str ''items'') Undefined],
          logged = []\<rparr> (Str ''b'') = Inr (Str ''b'', s')
        \<and> pushingTo s' = Some [Str ''ab''])"
proof -
  let ?f0 = "JSObj (Some []) (Num SECTION) (Some ''0'') Undefined None False (Str ''items'') Undefined"
  let ?f1 = "JSObj (Some [Str ''a'']) (Num SECTION) (Some ''0'') Undefined None False
               (Str ''items'') Undefined"
  let ?s0 = "\<lparr>startID = [], result = [], stack = [], logged = []\<rparr>"
  let ?s1 = "\<lparr>startID = [], result = [], stack = [?f0], logged = []\<rparr>"
  let ?s2 = "\<lparr>startID = [], result = [], stack = [?f1], logged = []\<rparr>"
  have "reachable (newTemplateStack\<lparr>startID := []\<rparr>)"
    by (rule reachable.new)
  then have r0: "reachable ?s0"
    by (simp add: newTemplateStack_def)
  have "openElement ?s0 (Num SECTION) (Str ''items'') = Inr (?f0, ?s1)"
    by (simp add: openElement_def getID_def peek_def types_defs
        string_of_nat.simps Let_def)
  with r0 have r1: "reachable ?s1"
    by (rule reachable.openElement)
  have "createObject ?s1 (Str ''a'') = Inr (Str ''a'', ?s2)"
    by (simp add: createObject_def closeElem_def closeChildren_def peek_def
        pushOrCombine_def set_children_def types_defs)
  with r1 have r2: "reachable ?s2"
    by (rule reachable.createObject)
  have p: "pushingTo ?s2 = Some [Str ''a'']"
    by (simp add: pushingTo_def peek_def types_defs)
  from builder_no_adjacent_strings [of ?s2 "[Str ''a'']" "''a''" "''b''"] r2 p
  show ?thesis
    by simp
qed


section \<open>Properties of the attachment pass\<close>

subsection \<open>The later selector wins\<close>

lemma startsWith_length: "startsWith s p \<Longrightarrow> length p \<le> length s"
  by (induction s p rule: startsWith.induct) auto

lemma indexOfFrom_length: "indexOfFrom s p k > - 1 \<Longrightarrow> length p \<le> length s"
proof (induction s p k rule: indexOfFrom.induct)
  case (1 p k)
  then show ?case by (auto split: if_splits)
next
  case (2 c cs p k)
  then show ?case
    using startsWith_length [of "c # cs" p] by (auto split: if_splits)
qed

lemma indexOf_length: "indexOf s p > - 1 \<Longrightarrow> length p \<le> length s"
  unfolding indexOf_def by (rule indexOfFrom_length)

lemma findMatch_last:
  "j < m \<Longrightarrow> indexOf className (paddedAt cc j) > - 1 \<Longrightarrow>
     \<forall>k. j < k \<and> k < m \<longrightarrow> \<not> indexOf className (paddedAt cc k) > - 1 \<Longrightarrow>
     findMatch className cc m = Some j"
proof (induction m)
  case 0
  then show ?case by simp
next
  case (Suc m)
  show ?case
  proof (cases "j = m")
    case True
    with Suc.prems show ?thesis by simp
  next
    case False
    with Suc.prems have "j < m" by simp
    moreover from Suc.prems False have "\<not> indexOf className (paddedAt cc m) > - 1"
      by auto
    ultimately show ?thesis
      using Suc by auto
  qed
qed

lemma set_keys: "set (keys cv) = fst ` set cv"
  by (auto simp: keys_def)

lemma distinct_keys: "distinct (map fst cv) \<Longrightarrow> distinct (keys cv)"
  by (auto simp: keys_def)

lemma keys_no_index:
  "list_all (\<lambda>k. \<not> isArrayIndex k) (map fst cv) \<Longrightarrow> keys cv = map fst cv"
  by (simp add: keys_def list_all_iff filter_empty_conv filter_id_conv)

lemma paddedAt_compute:
  "k < length (keys cv) \<Longrightarrow> paddedAt (computeChildClasses cv) k = '' '' @ keys cv ! k @ '' ''"
  by (simp add: paddedAt_def computeChildClasses_def)

lemma flatAt_compute: "k < length (keys cv) \<Longrightarrow> flatAt (computeChildClasses cv) k = keys cv ! k"
  by (simp add: flatAt_def computeChildClasses_def)

lemma getProperty_key:
  assumes "k < length (keys cv)"
  shows "\<exists>comp. map_of cv (keys cv ! k) = Some comp \<and> getProperty cv (keys cv ! k) = Own comp"
proof -
  from assms have "keys cv ! k \<in> fst ` set cv"
    using set_keys [of cv] nth_mem by blast
  then obtain comp where "map_of cv (keys cv ! k) = Some comp"
    by (metis domD dom_map_of_conv_image_fst)
  then show ?thesis
    by (simp add: getProperty_def)
qed

lemma two_matches_truthy:
  assumes "distinct ks" and "i < j" and "j < length ks"
    and "indexOf ('' '' @ staticClassName cls @ '' '') ('' '' @ ks ! i @ '' '') > - 1"
    and "indexOf ('' '' @ staticClassName cls @ '' '') ('' '' @ ks ! j @ '' '') > - 1"
  shows "attrTruthy cls"
proof (rule ccontr)
  assume "\<not> attrTruthy cls"
  then have e: "staticClassName cls = []"
    by (cases cls) auto
  from assms(4,5) have "ks ! i = []" "ks ! j = []"
    using indexOf_length [of "'' '' @ staticClassName cls @ '' ''" "'' '' @ ks ! i @ '' ''"]
      indexOf_length [of "'' '' @ staticClassName cls @ '' ''" "'' '' @ ks ! j @ '' ''"]
    by (auto simp: e)
  then have "ks ! i = ks ! j"
    by simp
  moreover have "i < length ks" "j < length ks"
    using assms(2,3) by simp_all
  ultimately have "i = j"
    using assms(1) nth_eq_iff_index_eq by blast
  with assms(2) show False
    by simp
qed

text \<open>
  Claim C5, as amended. Let an element that is not the root have a class attribute, and
  let the keys of the view's child views, in the order \<open>_.keys\<close> enumerates them, hold
  two selectors, at positions \<open>i < j\<close>, whose padded names both occur in the padded
  static class name, \<open>j\<close> being the last position that does. Then \<open>attachViews\<close>
  returns, with any fuel, a new Widget bound to the component registered under the
  selector at \<open>j\<close>, the later one in the enumeration, and holding a new Template of
  the element and the partials; nothing else in the store changes. The cache of
  selectors is either absent or the one computed from these child views.

  The enumeration lists the selectors that are array indices first, in numeric order,
  and then the others in the order of their registration. When no selector is an array
  index it is the order of registration, and the later-registered selector wins.
\<close>

theorem attachViews_later_selector_wins:
  assumes nd: "lookup (nodes s) a = Some nd" "\<not> node_root nd"
    and cv: "childViews vw = Some cv" "distinct (map fst cv)"
    and cls: "classOf nd = Some cls"
    and ij: "i < j" "j < length (keys cv)"
    and mi: "indexOf ('' '' @ staticClassName cls @ '' '') ('' '' @ keys cv ! i @ '' '') > - 1"
    and mj: "indexOf ('' '' @ staticClassName cls @ '' '') ('' '' @ keys cv ! j @ '' '') > - 1"
    and lst: "\<forall>k. j < k \<and> k < length (keys cv) \<longrightarrow>
                \<not> indexOf ('' '' @ staticClassName cls @ '' '') ('' '' @ keys cv ! k @ '' '') > - 1"
    and cc: "cc = None \<or> cc = Some (computeChildClasses cv)"
  shows "(\<exists>comp. map_of cv (keys cv ! j) = Some comp
           \<and> attachViews (Suc n) reg vw (VNode a) ww ps cc s =
               Returns (VWidget (length (widgets s)))
                 (s\<lparr>templates := templates s @
                       [\<lparr>templateObj = VNode a, partials = ps, view = None\<rparr>],
                    widgets := widgets s @
                      [\<lparr>widget_constructor = ww, widget_childView = Own comp,
                        widget_template = length (templates s)\<rparr>]\<rparr>))
       \<and> keys cv =
           sort_key indexValue (filter isArrayIndex (map fst cv))
             @ filter (\<lambda>k. \<not> isArrayIndex k) (map fst cv)
       \<and> (list_all (\<lambda>k. \<not> isArrayIndex k) (map fst cv) \<longrightarrow> keys cv = map fst cv)"
proof (intro conjI impI)
  let ?cc = "computeChildClasses cv"
  let ?cls = "'' '' @ staticClassName cls @ '' ''"
  have t: "attrTruthy cls"
    using two_matches_truthy [OF distinct_keys [OF cv(2)] ij mi mj] .
  have l: "len ?cc = length (keys cv)"
    by (simp add: computeChildClasses_def)
  have "findMatch ?cls ?cc (length (keys cv)) = Some j"
  proof (rule findMatch_last [OF ij(2)])
    show "indexOf ?cls (paddedAt ?cc j) > - 1"
      using mj ij by (simp add: paddedAt_compute)
    show "\<forall>k. j < k \<and> k < length (keys cv) \<longrightarrow> \<not> indexOf ?cls (paddedAt ?cc k) > - 1"
      using lst by (simp add: paddedAt_compute)
  qed
  with cls t l have m: "matchChildView nd ?cc = Some j"
    by (simp add: matchChildView_def)
  have c1: "(case cc of None \<Rightarrow> ?cc | Some c \<Rightarrow> c) = ?cc"
    using cc by auto
  from getProperty_key [OF ij(2)] obtain comp where
    comp: "map_of cv (keys cv ! j) = Some comp" "getProperty cv (keys cv ! j) = Own comp"
    by blast
  have k: "getProperty cv (flatAt ?cc j) = Own comp"
    using ij comp(2) by (simp add: flatAt_compute)
  have "attachViews (Suc n) reg vw (VNode a) ww ps cc s =
      Returns (VWidget (length (widgets s)))
        (s\<lparr>templates := templates s @ [\<lparr>templateObj = VNode a, partials = ps, view = None\<rparr>],
           widgets := widgets s @
             [\<lparr>widget_constructor = ww, widget_childView = Own comp,
               widget_template = length (templates s)\<rparr>]\<rparr>)"
    using nd cv(1) m k
    by (simp add: attachViewsBody_def c1 newWidget_def Let_def)
  with comp(1) show "\<exists>comp. map_of cv (keys cv ! j) = Some comp
           \<and> attachViews (Suc n) reg vw (VNode a) ww ps cc s =
               Returns (VWidget (length (widgets s)))
                 (s\<lparr>templates := templates s @
                       [\<lparr>templateObj = VNode a, partials = ps, view = None\<rparr>],
                    widgets := widgets s @
                      [\<lparr>widget_constructor = ww, widget_childView = Own comp,
                        widget_template = length (templates s)\<rparr>]\<rparr>)"
    by blast
next
  show "keys cv =
      sort_key indexValue (filter isArrayIndex (map fst cv))
        @ filter (\<lambda>k. \<not> isArrayIndex k) (map fst cv)"
    by (simp add: keys_def)
next
  assume "list_all (\<lambda>k. \<not> isArrayIndex k) (map fst cv)"
  then show "keys cv = map fst cv"
    by (rule keys_no_index)
qed

theorem attachViews_later_selector_wins_witness:
  "lookup (nodes \<lparr>arrays = [[VStr ''hi'']],
       nodes = [\<lparr>node_t = Some 7, node_e = Some ''li'',
                 node_a = Some [(''class'', AParts [PStr ''item'', PDynamic, PStr ''big''])],
                 node_f = VArr 0, node_r = None, node_root = False\<rparr>],
       widgets = [], templates = [], partialMaps = [[]], warnings = []\<rparr>) 0
     = Some \<lparr>node_t = Some 7, node_e = Some ''li'',
                 node_a = Some [(''class'', AParts [PStr ''item'', PDynamic, PStr ''big''])],
                 node_f = VArr 0, node_r = None, node_root = False\<rparr>
   \<and> keys [(''item'', ''componentX''), (''big'', ''componentY''), (''other'', ''componentZ'')]
     = [''item'', ''big'', ''other'']
   \<and> indexOf '' item big '' '' item '' > - 1
   \<and> indexOf '' item big '' '' big '' > - 1
   \<and> attachViews 1 0
       \<lparr>childViews = Some [(''item'', ''componentX''), (''big'', ''componentY''),
          (''other'', ''componentZ'')], parentView = None\<rparr>
       (VNode 0) ''widgetWrapper'' (Some 0) None
       \<lparr>arrays = [[VStr ''hi'']],
         nodes = [\<lparr>node_t = Some 7, node_e = Some ''li'',
                 node_a = Some [(''class'', AParts [PStr ''item'', PDynamic, PStr ''big''])],
                 node_f = VArr 0, node_r = None, node_root = False\<rparr>],
         widgets = [], templates = [], partialMaps = [[]], warnings = []\<rparr>
     = Returns (VWidget 0)
       \<lparr>arrays = [[VStr ''hi'']],
         nodes = [\<lparr>node_t = Some 7, node_e = Some ''li'',
                 node_a = Some [(''class'', AParts [PStr ''item'', PDynamic, PStr ''big''])],
                 node_f = VArr 0, node_r = None, node_root = False\<rparr>],
         widgets = [\<lparr>widget_constructor = ''widgetWrapper'',
                     widget_childView = Own ''componentY'', widget_template = 0\<rparr>],
         templates = [\<lparr>templateObj = VNode 0, partials = Some 0, view = None\<rparr>],
         partialMaps = [[]], warnings = []\<rparr>"
proof -
  let ?cls = "AParts [PStr ''item'', PDynamic, PStr ''big'']"
  let ?nd = "\<lparr>node_t = Some 7, node_e = Some ''li'', node_a = Some [(''class'', ?cls)],
               node_f = VArr 0, node_r = None, node_root = False\<rparr>"
  let ?s = "\<lparr>arrays = [[VStr ''hi'']], nodes = [?nd], widgets = [], templates = [],
              partialMaps = [[]], warnings = []\<rparr>"
  let ?cv = "[(''item'', ''componentX''), (''big'', ''componentY''), (''other'', ''componentZ'')]"
  let ?vw = "\<lparr>childViews = Some ?cv, parentView = None\<rparr>"
  have h1: "lookup (nodes ?s) 0 = Some ?nd"
    by (simp add: lookup_def)
  have h2: "\<not> node_root ?nd"
    by simp
  have h3: "childViews ?vw = Some ?cv"
    by simp
  have h4: "distinct (map fst ?cv)"
    by simp
  have h5: "classOf ?nd = Some ?cls"
    by (simp add: classOf_def)
  have ni: "list_all (\<lambda>k. \<not> isArrayIndex k) (map fst ?cv)"
    by (simp add: isArrayIndex_def isDigit_def)
  then have ks: "keys ?cv = [''item'', ''big'', ''other'']"
    using keys_no_index [of ?cv] by simp
  have h6: "(0::nat) < 1" "1 < length (keys ?cv)"
    by (simp_all add: ks)
  have s: "'' '' @ staticClassName ?cls @ '' '' = '' item big ''"
    by simp
  have m0: "indexOf '' item big '' '' item '' > - 1"
    by code_simp
  have m1: "indexOf '' item big '' '' big '' > - 1"
    by code_simp
  have m2: "\<not> indexOf '' item big '' '' other '' > - 1"
    by code_simp
  have h7: "indexOf ('' '' @ staticClassName ?cls @ '' '') ('' '' @ keys ?cv ! 0 @ '' '') > - 1"
    unfolding s ks using m0 by simp
  have h8: "indexOf ('' '' @ staticClassName ?cls @ '' '') ('' '' @ keys ?cv ! 1 @ '' '') > - 1"
    unfolding s ks using m1 by simp
  have h9: "\<forall>k. 1 < k \<and> k < length (keys ?cv) \<longrightarrow>
      \<not> indexOf ('' '' @ staticClassName ?cls @ '' '') ('' '' @ keys ?cv ! k @ '' '') > - 1"
  proof (intro allI impI)
    fix k :: nat
    assume "1 < k \<and> k < length (keys ?cv)"
    then have "k = 2" by (simp add: ks)
    then show "\<not> indexOf ('' '' @ staticClassName ?cls @ '' '') ('' '' @ keys ?cv ! k @ '' '') > - 1"
      unfolding s ks using m2 by simp
  qed
  have h10: "None = None \<or> None = Some (computeChildClasses ?cv)"
    by simp
  from attachViews_later_selector_wins [OF h1 h2 h3 h4 h5 h6 h7 h8 h9 h10,
      of 0 0 "''widgetWrapper''" "Some 0", THEN conjunct1]
    h1 m0 m1 ks
  show ?thesis
    by (auto simp: ks)
qed

text \<open>
  Claim C5 as stated fails: here the selector \<open>b\<close> was registered before the selector
  \<open>1\<close>, and the class of the element has both. The enumeration lists \<open>1\<close>, an array
  index, before \<open>b\<close>, so the Widget is bound to the component of \<open>b\<close>, the selector
  registered earlier.
\<close>

theorem attachViews_index_selector_first_counterexample:
  "keys [(''b'', ''componentB''), (''1'', ''component1'')] = [''1'', ''b'']
   \<and> attachViews 1 0
       \<lparr>childViews = Some [(''b'', ''componentB''), (''1'', ''component1'')], parentView = None\<rparr>
       (VNode 0) ''widgetWrapper'' (Some 0) None
       \<lparr>arrays = [],
         nodes = [\<lparr>node_t = Some 7, node_e = Some ''li'',
                   node_a = Some [(''class'', AStr ''1 b'')], node_f = VUndefined,
                   node_r = None, node_root = False\<rparr>],
         widgets = [], templates = [], partialMaps = [[]], warnings = []\<rparr>
     = Returns (VWidget 0)
       \<lparr>arrays = [],
         nodes = [\<lparr>node_t = Some 7, node_e = Some ''li'',
                   node_a = Some [(''class'', AStr ''1 b'')], node_f = VUndefined,
                   node_r = None, node_root = False\<rparr>],
         widgets = [\<lparr>widget_constructor = ''widgetWrapper'',
                     widget_childView = Own ''componentB'', widget_template = 0\<rparr>],
         templates = [\<lparr>templateObj = VNode 0, partials = Some 0, view = None\<rparr>],
         partialMaps = [[]], warnings = []\<rparr>"
  by code_simp

subsection \<open>The pass rewrites its input in place\<close>

lemma framed_refl [simp]: "framed s s"
  by (simp add: framed_def nodesKept_def arraysKept_def othersKept_def sameButChildren_def)

lemma nodesKept_trans: "nodesKept s1 s2 \<Longrightarrow> nodesKept s2 s3 \<Longrightarrow> nodesKept s1 s3"
  unfolding nodesKept_def sameButChildren_def
  by (metis (no_types, lifting) le_trans less_le_trans)

lemma arraysKept_trans: "arraysKept s1 s2 \<Longrightarrow> arraysKept s2 s3 \<Longrightarrow> arraysKept s1 s3"
  unfolding arraysKept_def
  by (metis (no_types, lifting) le_trans less_le_trans)

lemma othersKept_trans: "othersKept s1 s2 \<Longrightarrow> othersKept s2 s3 \<Longrightarrow> othersKept s1 s3"
  unfolding othersKept_def by auto

lemma framed_trans: "framed s1 s2 \<Longrightarrow> framed s2 s3 \<Longrightarrow> framed s1 s3"
  unfolding framed_def
  by (blast intro: nodesKept_trans arraysKept_trans othersKept_trans)

lemma nth_list_update_if: "j < length xs \<Longrightarrow> xs[i := x] ! j = (if i = j then x else xs ! j)"
  by (cases "i = j") auto

lemma framed_newWidget: "newWidget s ww child tmpl ps = (w, s') \<Longrightarrow> framed s s'"
  by (auto simp: newWidget_def Let_def framed_def nodesKept_def arraysKept_def othersKept_def
      sameButChildren_def)

lemma framed_setChildren: "framed s (setChildren s a xs)"
  by (auto simp: setChildren_def Let_def framed_def nodesKept_def arraysKept_def othersKept_def
      sameButChildren_def nth_list_update_if nth_append)

lemma framed_writeArray: "framed s (writeArray s a i v)"
  by (auto simp: writeArray_def framed_def nodesKept_def arraysKept_def othersKept_def
      sameButChildren_def nth_list_update_if)

lemma framed_clone: "clone s v = Inr (c, s') \<Longrightarrow> framed s s'"
  by (auto simp: clone_def framed_def nodesKept_def arraysKept_def othersKept_def
      sameButChildren_def nth_append split: val.splits option.splits)

lemma framed_cloneInherited: "framed s (snd (cloneInherited s))"
  by (auto simp: cloneInherited_def framed_def nodesKept_def arraysKept_def othersKept_def
      sameButChildren_def nth_append)

lemma framed_warn: "framed s (s\<lparr>warnings := w\<rparr>)"
  by (simp add: framed_def nodesKept_def arraysKept_def othersKept_def sameButChildren_def)


lemma attachPartialBody_framed:
  assumes av: "\<And>reg vw tmpl ww ps cc s v s'. av reg vw tmpl ww ps cc s = Returns v s' \<Longrightarrow> framed s s'"
    and r: "attachPartialBody av reg vw a ww ps cc s = Returns v s'"
  shows "framed s s'"
proof (cases "lookup (nodes s) a")
  case None
  with r show ?thesis by (simp add: attachPartialBody_def)
next
  case (Some nd)
  show ?thesis
  proof (cases "node_t nd = Some PARTIAL")
    case False
    with r Some show ?thesis by (simp add: attachPartialBody_def)
  next
    case True
    show ?thesis
    proof (cases "resolvePartial s ps (getInterpolatorKey nd)")
      case (Inl e)
      with r Some True show ?thesis by (simp add: attachPartialBody_def)
    next
      case (Inr res)
      show ?thesis
      proof (cases res)
        case Unresolved
        with r Some True Inr show ?thesis
          by (auto simp: attachPartialBody_def framed_warn)
      next
        case (Resolved pt own)
        show ?thesis
        proof (cases "clone s pt")
          case (Inl e)
          with r Some True Inr Resolved show ?thesis by (simp add: attachPartialBody_def)
        next
          case c: (Inr p)
          obtain c1 s1 where p: "p = (c1, s1)" by (cases p)
          with r Some True Inr Resolved c have
            "av reg vw c1 ww (case own of None \<Rightarrow> Some reg | Some q \<Rightarrow> Some q) cc s1 = Returns v s'"
            by (simp add: attachPartialBody_def)
          then have "framed s1 s'" by (rule av)
          moreover from c p have "framed s s1" by (auto intro: framed_clone)
          ultimately show ?thesis by (blast intro: framed_trans)
        qed
      next
        case (ResolvedInherited member)
        with r Some True Inr have
          "av reg vw (fst (cloneInherited s)) ww (Some reg) cc (snd (cloneInherited s)) = Returns v s'"
          by (simp add: attachPartialBody_def split: prod.splits)
        then have "framed (snd (cloneInherited s)) s'" by (rule av)
        moreover have "framed s (snd (cloneInherited s))" by (rule framed_cloneInherited)
        ultimately show ?thesis by (blast intro: framed_trans)
      qed
    qed
  qed
qed

lemma arrayLoopBody_framed:
  assumes av: "\<And>reg vw tmpl ww ps cc s v s'. av reg vw tmpl ww ps cc s = Returns v s' \<Longrightarrow> framed s s'"
    and al: "\<And>reg vw a i ww ps cc s v s'. al reg vw a i ww ps cc s = Returns v s' \<Longrightarrow> framed s s'"
    and r: "arrayLoopBody av al reg vw a i ww ps cc s = Returns v s'"
  shows "framed s s'"
proof (cases "lookup (arrays s) a")
  case None
  with r show ?thesis by (simp add: arrayLoopBody_def)
next
  case (Some xs)
  show ?thesis
  proof (cases "i < length xs")
    case False
    with r Some show ?thesis by (simp add: arrayLoopBody_def)
  next
    case True
    show ?thesis
    proof (cases "av reg vw (xs ! i) ww ps cc s")
      case (Returns v1 s1)
      with r Some True have "al reg vw a (i + 1) ww ps cc (writeArray s1 a i v1) = Returns v s'"
        by (simp add: arrayLoopBody_def)
      then have "framed (writeArray s1 a i v1) s'" by (rule al)
      moreover have "framed s s1" using Returns by (rule av)
      ultimately show ?thesis
        by (blast intro: framed_trans framed_writeArray)
    qed (use r Some True in \<open>simp_all add: arrayLoopBody_def\<close>)
  qed
qed

lemma childLoopBody_framed:
  assumes av: "\<And>reg vw tmpl ww ps cc s v s'. av reg vw tmpl ww ps cc s = Returns v s' \<Longrightarrow> framed s s'"
    and cl: "\<And>reg vw a i ww ps cc s v s'. cl reg vw a i ww ps cc s = Returns v s' \<Longrightarrow> framed s s'"
    and r: "childLoopBody av cl reg vw a i ww ps cc s = Returns v s'"
  shows "framed s s'"
proof (cases "lookup (nodes s) a")
  case None
  with r show ?thesis by (simp add: childLoopBody_def)
next
  case (Some nd)
  show ?thesis
  proof (cases "node_f nd")
    case (VArr fa)
    show ?thesis
    proof (cases "lookup (arrays s) fa")
      case None
      with r Some VArr show ?thesis by (simp add: childLoopBody_def)
    next
      case xs: (Some xs)
      show ?thesis
      proof (cases "i < length xs")
        case False
        with r Some VArr xs show ?thesis by (simp add: childLoopBody_def)
      next
        case True
        show ?thesis
        proof (cases "av reg vw (xs ! i) ww ps cc s")
          case (Returns v1 s1)
          with r Some VArr xs True have
            "cl reg vw a (i + 1) ww ps cc (writeArray s1 fa i v1) = Returns v s'"
            by (simp add: childLoopBody_def)
          then have "framed (writeArray s1 fa i v1) s'" by (rule cl)
          moreover have "framed s s1" using Returns by (rule av)
          ultimately show ?thesis
            by (blast intro: framed_trans framed_writeArray)
        qed (use r Some VArr xs True in \<open>simp_all add: childLoopBody_def\<close>)
      qed
    qed
  next
    case (VStr str)
    with r Some show ?thesis
      by (auto simp: childLoopBody_def split: if_splits res.splits)
  qed (use r Some in \<open>simp_all add: childLoopBody_def\<close>)
qed

lemma attachChildrenBody_framed:
  assumes cl: "\<And>reg vw a i ww ps cc s v s'. cl reg vw a i ww ps cc s = Returns v s' \<Longrightarrow> framed s s'"
    and r: "attachChildrenBody cl nd reg vw a ww ps cc s = Returns v s'"
  shows "framed s s'"
proof (cases "truthy (node_f nd)")
  case False
  with r show ?thesis by (simp add: attachChildrenBody_def)
next
  case True
  show ?thesis
  proof (cases "cl reg vw a 0 ww ps cc s")
    case (Returns u s1)
    then have "framed s s1" by (rule cl)
    moreover from r True Returns have "\<exists>xs. s' = setChildren s1 a xs"
      by (auto simp: attachChildrenBody_def split: option.splits)
    ultimately show ?thesis
      by (blast intro: framed_trans framed_setChildren)
  qed (use r True in \<open>simp_all add: attachChildrenBody_def\<close>)
qed

lemma attachRest_framed:
  assumes cl: "\<And>reg vw a i ww ps cc s v s'. cl reg vw a i ww ps cc s = Returns v s' \<Longrightarrow> framed s s'"
    and ap: "\<And>reg vw a ww ps cc s v s'. ap reg vw a ww ps cc s = Returns v s' \<Longrightarrow> framed s s'"
    and r: "attachRest cl ap nd reg vw a ww ps cc s = Returns v s'"
  shows "framed s s'"
proof (cases "attachChildrenBody cl nd reg vw a ww ps cc s")
  case (Returns u s1)
  then have "framed s s1"
    using cl attachChildrenBody_framed [where cl = cl] by blast
  moreover from r Returns have "ap reg vw a ww ps cc s1 = Returns v s'"
    by (simp add: attachRest_def)
  then have "framed s1 s'" by (rule ap)
  ultimately show ?thesis by (rule framed_trans)
qed (use r in \<open>simp_all add: attachRest_def\<close>)

lemma attachViewsBody_framed:
  assumes al: "\<And>reg vw a i ww ps cc s v s'. al reg vw a i ww ps cc s = Returns v s' \<Longrightarrow> framed s s'"
    and cl: "\<And>reg vw a i ww ps cc s v s'. cl reg vw a i ww ps cc s = Returns v s' \<Longrightarrow> framed s s'"
    and ap: "\<And>reg vw a ww ps cc s v s'. ap reg vw a ww ps cc s = Returns v s' \<Longrightarrow> framed s s'"
    and r: "attachViewsBody al cl ap reg vw tmpl ww ps cc s = Returns v s'"
  shows "framed s s'"
proof (cases tmpl)
  case (VArr a)
  with r have "al reg vw a 0 ww ps cc s = Returns v s'"
    by (simp add: attachViewsBody_def)
  then show ?thesis by (rule al)
next
  case (VNode a)
  show ?thesis
  proof (cases "lookup (nodes s) a")
    case None
    with r VNode show ?thesis by (simp add: attachViewsBody_def)
  next
    case (Some nd)
    show ?thesis
    proof (cases "if node_root nd then None else childViews vw")
      case None
      with r VNode Some have "attachRest cl ap nd reg vw a ww ps cc s = Returns v s'"
        by (simp add: attachViewsBody_def)
      then show ?thesis
        by (rule attachRest_framed [where cl = cl and ap = ap, rotated 2]) (erule cl, erule ap)
    next
      case cv: (Some cv)
      let ?cc1 = "case cc of None \<Rightarrow> computeChildClasses cv | Some c \<Rightarrow> c"
      show ?thesis
      proof (cases "matchChildView nd ?cc1")
        case None
        with r VNode Some cv have
          "attachRest cl ap nd reg vw a ww ps (Some ?cc1) s = Returns v s'"
          by (simp add: attachViewsBody_def Let_def)
        then show ?thesis
        by (rule attachRest_framed [where cl = cl and ap = ap, rotated 2]) (erule cl, erule ap)
      next
        case i: (Some i)
        with r VNode Some cv have
          "newWidget s ww (getProperty cv (flatAt ?cc1 i)) tmpl ps = (v, s')"
          by (auto simp: attachViewsBody_def Let_def split: prod.splits)
        then show ?thesis by (rule framed_newWidget)
      qed
    qed
  qed
qed (use r in \<open>auto simp: attachViewsBody_def\<close>)

lemma attach_framed:
  "(\<forall>reg vw tmpl ww ps cc s v s'.
      attachViews n reg vw tmpl ww ps cc s = Returns v s' \<longrightarrow> framed s s')
   \<and> (\<forall>reg vw a i ww ps cc s v s'.
      arrayLoop n reg vw a i ww ps cc s = Returns v s' \<longrightarrow> framed s s')
   \<and> (\<forall>reg vw a i ww ps cc s v s'.
      childLoop n reg vw a i ww ps cc s = Returns v s' \<longrightarrow> framed s s')
   \<and> (\<forall>reg vw a ww ps cc s v s'.
      attachPartial n reg vw a ww ps cc s = Returns v s' \<longrightarrow> framed s s')"
proof (induction n)
  case 0
  show ?case by simp
next
  case (Suc n)
  note av = Suc.IH [THEN conjunct1, rule_format]
  note al = Suc.IH [THEN conjunct2, THEN conjunct1, rule_format]
  note cl = Suc.IH [THEN conjunct2, THEN conjunct2, THEN conjunct1, rule_format]
  note ap = Suc.IH [THEN conjunct2, THEN conjunct2, THEN conjunct2, rule_format]
  show ?case
  proof (intro conjI allI impI)
    fix reg vw tmpl ww ps cc s v s'
    assume "attachViews (Suc n) reg vw tmpl ww ps cc s = Returns v s'"
    then have "attachViewsBody (arrayLoop n) (childLoop n) (attachPartial n)
        reg vw tmpl ww ps cc s = Returns v s'"
      by simp
    then show "framed s s'"
      by (rule attachViewsBody_framed [rotated 3]) (erule al, erule cl, erule ap)
  next
    fix reg vw a i ww ps cc s v s'
    assume "arrayLoop (Suc n) reg vw a i ww ps cc s = Returns v s'"
    then have "arrayLoopBody (attachViews n) (arrayLoop n) reg vw a i ww ps cc s = Returns v s'"
      by simp
    then show "framed s s'"
      by (rule arrayLoopBody_framed [rotated 2]) (erule av, erule al)
  next
    fix reg vw a i ww ps cc s v s'
    assume "childLoop (Suc n) reg vw a i ww ps cc s = Returns v s'"
    then have "childLoopBody (attachViews n) (childLoop n) reg vw a i ww ps cc s = Returns v s'"
      by simp
    then show "framed s s'"
      by (rule childLoopBody_framed [rotated 2]) (erule av, erule cl)
  next
    fix reg vw a ww ps cc s v s'
    assume "attachPartial (Suc n) reg vw a ww ps cc s = Returns v s'"
    then have "attachPartialBody (attachViews n) reg vw a ww ps cc s = Returns v s'"
      by simp
    then show "framed s s'"
      by (rule attachPartialBody_framed [rotated 1]) (erule av)
  qed
qed

text \<open>
  Claim C1, as amended. \<open>attachViews\<close> rewrites the graph it is given in place. When it
  returns, every node that was in the store has its type tag, tag name, attributes, key
  and root flag unchanged, every array that was in the store has its length unchanged,
  and every widget, template and partials map that was in the store is unchanged; new
  arrays, nodes, widgets and templates may have been added. What a call may overwrite is
  the entries of the arrays and the children field \<open>f\<close> of the nodes.
\<close>

theorem attachViews_rewrites_in_place:
  assumes "attachViews n reg vw tmpl ww ps cc s = Returns v s'"
  shows "(\<forall>a<length (nodes s).
            a < length (nodes s') \<and> sameButChildren (nodes s ! a) (nodes s' ! a))
       \<and> (\<forall>a<length (arrays s).
            a < length (arrays s') \<and> length (arrays s' ! a) = length (arrays s ! a))
       \<and> (\<exists>ws. widgets s' = widgets s @ ws)
       \<and> (\<exists>ts. templates s' = templates s @ ts)
       \<and> partialMaps s' = partialMaps s"
proof -
  from assms have "framed s s'"
    by (rule attach_framed [THEN conjunct1, rule_format])
  then show ?thesis
    by (auto simp: framed_def nodesKept_def arraysKept_def othersKept_def)
qed

theorem attachViews_rewrites_in_place_witness:
  "attachViews 3 0 \<lparr>childViews = Some [(''item'', ''componentX'')], parentView = None\<rparr>
      (VArr 0) ''widgetWrapper'' (Some 0) None
      \<lparr>arrays = [[VNode 0], [VStr ''hi'']],
         nodes = [\<lparr>node_t = Some 7, node_e = Some ''li'',
                   node_a = Some [(''class'', AStr ''item'')], node_f = VArr 1,
                   node_r = None, node_root = False\<rparr>],
         widgets = [], templates = [], partialMaps = [[]], warnings = []\<rparr>
    = Returns (VArr 0)
      \<lparr>arrays = [[VWidget 0], [VStr ''hi'']],
         nodes = [\<lparr>node_t = Some 7, node_e = Some ''li'',
                   node_a = Some [(''class'', AStr ''item'')], node_f = VArr 1,
                   node_r = None, node_root = False\<rparr>],
         widgets = [\<lparr>widget_constructor = ''widgetWrapper'',
                     widget_childView = Own ''componentX'', widget_template = 0\<rparr>],
         templates = [\<lparr>templateObj = VNode 0, partials = Some 0, view = None\<rparr>],
         partialMaps = [[]], warnings = []\<rparr>
   \<and> sameButChildren
        \<lparr>node_t = Some 7, node_e = Some ''li'', node_a = Some [(''class'', AStr ''item'')],
           node_f = VArr 1, node_r = None, node_root = False\<rparr>
        (nodes \<lparr>arrays = [[VWidget 0], [VStr ''hi'']],
         nodes = [\<lparr>node_t = Some 7, node_e = Some ''li'',
                   node_a = Some [(''class'', AStr ''item'')], node_f = VArr 1,
                   node_r = None, node_root = False\<rparr>],
         widgets = [\<lparr>widget_constructor = ''widgetWrapper'',
                     widget_childView = Own ''componentX'', widget_template = 0\<rparr>],
         templates = [\<lparr>templateObj = VNode 0, partials = Some 0, view = None\<rparr>],
         partialMaps = [[]], warnings = []\<rparr> ! 0)
   \<and> length (arrays \<lparr>arrays = [[VWidget 0], [VStr ''hi'']],
         nodes = [\<lparr>node_t = Some 7, node_e = Some ''li'',
                   node_a = Some [(''class'', AStr ''item'')], node_f = VArr 1,
                   node_r = None, node_root = False\<rparr>],
         widgets = [\<lparr>widget_constructor = ''widgetWrapper'',
                     widget_childView = Own ''componentX'', widget_template = 0\<rparr>],
         templates = [\<lparr>templateObj = VNode 0, partials = Some 0, view = None\<rparr>],
         partialMaps = [[]], warnings = []\<rparr> ! 0) = 1
   \<and> partialMaps \<lparr>arrays = [[VWidget 0], [VStr ''hi'']],
         nodes = [\<lparr>node_t = Some 7, node_e = Some ''li'',
                   node_a = Some [(''class'', AStr ''item'')], node_f = VArr 1,
                   node_r = None, node_root = False\<rparr>],
         widgets = [\<lparr>widget_constructor = ''widgetWrapper'',
                     widget_childView = Own ''componentX'', widget_template = 0\<rparr>],
         templates = [\<lparr>templateObj = VNode 0, partials = Some 0, view = None\<rparr>],
         partialMaps = [[]], warnings = []\<rparr> = [[]]"
proof -
  let ?s = "\<lparr>arrays = [[VNode 0], [VStr ''hi'']],
         nodes = [\<lparr>node_t = Some 7, node_e = Some ''li'',
                   node_a = Some [(''class'', AStr ''item'')], node_f = VArr 1,
                   node_r = None, node_root = False\<rparr>],
         widgets = [], templates = [], partialMaps = [[]], warnings = []\<rparr>"
  let ?s' = "\<lparr>arrays = [[VWidget 0], [VStr ''hi'']],
         nodes = [\<lparr>node_t = Some 7, node_e = Some ''li'',
                   node_a = Some [(''class'', AStr ''item'')], node_f = VArr 1,
                   node_r = None, node_root = False\<rparr>],
         widgets = [\<lparr>widget_constructor = ''widgetWrapper'',
                     widget_childView = Own ''componentX'', widget_template = 0\<rparr>],
         templates = [\<lparr>templateObj = VNode 0, partials = Some 0, view = None\<rparr>],
         partialMaps = [[]], warnings = []\<rparr>"
  have h: "attachViews 3 0 \<lparr>childViews = Some [(''item'', ''componentX'')], parentView = None\<rparr>
      (VArr 0) ''widgetWrapper'' (Some 0) None
      \<lparr>arrays = [[VNode 0], [VStr ''hi'']],
         nodes = [\<lparr>node_t = Some 7, node_e = Some ''li'',
                   node_a = Some [(''class'', AStr ''item'')], node_f = VArr 1,
                   node_r = None, node_root = False\<rparr>],
         widgets = [], templates = [], partialMaps = [[]], warnings = []\<rparr>
    = Returns (VArr 0) ?s'"
    by code_simp
  from attachViews_rewrites_in_place [OF h] have
    "\<forall>a<length (nodes ?s). a < length (nodes ?s') \<and> sameButChildren (nodes ?s ! a) (nodes ?s' ! a)"
    and "\<forall>a<length (arrays ?s).
           a < length (arrays ?s') \<and> length (arrays ?s' ! a) = length (arrays ?s ! a)"
    and "partialMaps ?s' = partialMaps ?s"
    by blast+
  then have "sameButChildren (nodes ?s ! 0) (nodes ?s' ! 0)"
    and "length (arrays ?s' ! 0) = length (arrays ?s ! 0)"
    and "partialMaps ?s' = partialMaps ?s"
    by simp_all
  with h show ?thesis
    by simp
qed

text \<open>
  Claim C1 as stated fails: the array passed in held the element and, after the call,
  holds the Widget that replaced it.
\<close>

theorem attachViews_mutates_input_counterexample:
  "(case attachViews 3 0 \<lparr>childViews = Some [(''item'', ''componentX'')], parentView = None\<rparr>
      (VArr 0) ''widgetWrapper'' (Some 0) None
      \<lparr>arrays = [[VNode 0], [VStr ''hi'']],
         nodes = [\<lparr>node_t = Some 7, node_e = Some ''li'',
                   node_a = Some [(''class'', AStr ''item'')], node_f = VArr 1,
                   node_r = None, node_root = False\<rparr>],
         widgets = [], templates = [], partialMaps = [[]], warnings = []\<rparr> of
      Returns v s' \<Rightarrow> v = VArr 0 \<and> arrays s' ! 0 = [VWidget 0]
    | _ \<Rightarrow> False)"
  by code_simp

subsection \<open>Partials are resolved in the map supplied\<close>







section \<open>Properties of toString\<close>

text \<open>
  Claim C6, as amended. \<open>toString\<close> renders the full graph when the Template is bound to
  no view or to a view that has a parent view. When it is bound to a top-level view (one
  with no parent view) and its graph is a node, it renders the node's children \<open>f\<close>,
  not the node itself, and falls back to the node when \<open>f\<close> is falsy. In general, for
  a top-level view it renders \<open>this.templateObj.f\<close> when that is truthy and the full
  graph otherwise (a graph that is an array has no \<open>f\<close>).
\<close>

theorem toString_strips_wrapper_of_top_level_view:
  fixes env :: "('stack, 'ctx, 'data, 'out) collaborators"
  shows
  "(view this = None \<or> (\<exists>vw. view this = Some vw \<and> parentView vw \<noteq> None)
      \<longrightarrow> toString env reg this data s =
            Inr (getOutputOf env (ractiveAdaptor env (toHtmlString env) (templateObj this)
                   (contextOf env data) (case partials this of Some p \<Rightarrow> p | None \<Rightarrow> reg)
                   None s)))
   \<and> (\<forall>vw a nd.
        view this = Some vw \<and> parentView vw = None \<and> templateObj this = VNode a
          \<and> lookup (nodes s) a = Some nd
        \<longrightarrow> toString env reg this data s =
              Inr (getOutputOf env (ractiveAdaptor env (toHtmlString env)
                     (if truthy (node_f nd) then node_f nd else VNode a)
                     (contextOf env data) (case partials this of Some p \<Rightarrow> p | None \<Rightarrow> reg)
                     None s)))
   \<and> (\<forall>vw g.
        view this = Some vw \<and> parentView vw = None \<and> fieldF s (templateObj this) = Inr g
        \<longrightarrow> toString env reg this data s =
              Inr (getOutputOf env (ractiveAdaptor env (toHtmlString env)
                     (if truthy g then g else templateObj this)
                     (contextOf env data) (case partials this of Some p \<Rightarrow> p | None \<Rightarrow> reg)
                     None s)))"
proof (intro conjI allI impI)
  assume "view this = None \<or> (\<exists>vw. view this = Some vw \<and> parentView vw \<noteq> None)"
  then show "toString env reg this data s =
      Inr (getOutputOf env (ractiveAdaptor env (toHtmlString env) (templateObj this)
             (contextOf env data) (case partials this of Some p \<Rightarrow> p | None \<Rightarrow> reg) None s))"
    by (auto simp: toString_def templateToRender_def render_def)
next
  fix vw a nd
  assume "view this = Some vw \<and> parentView vw = None \<and> templateObj this = VNode a
      \<and> lookup (nodes s) a = Some nd"
  then show "toString env reg this data s =
      Inr (getOutputOf env (ractiveAdaptor env (toHtmlString env)
             (if truthy (node_f nd) then node_f nd else VNode a)
             (contextOf env data) (case partials this of Some p \<Rightarrow> p | None \<Rightarrow> reg) None s))"
    by (simp add: toString_def templateToRender_def render_def fieldF_def)
next
  fix vw g
  assume "view this = Some vw \<and> parentView vw = None \<and> fieldF s (templateObj this) = Inr g"
  then show "toString env reg this data s =
      Inr (getOutputOf env (ractiveAdaptor env (toHtmlString env)
             (if truthy g then g else templateObj this)
             (contextOf env data) (case partials this of Some p \<Rightarrow> p | None \<Rightarrow> reg) None s))"
    by (simp add: toString_def templateToRender_def render_def)
qed

theorem toString_strips_wrapper_of_top_level_view_witness:
  "view \<lparr>templateObj = VNode 0, partials = None,
          view = Some \<lparr>childViews = None, parentView = None\<rparr>\<rparr>
      = Some \<lparr>childViews = None, parentView = None\<rparr>
   \<and> toString
        \<lparr>ractiveAdaptor = (\<lambda>stk g ctx p v s. (g, v)), contextOf = (\<lambda>d. d),
           toHtmlString = (VUndefined, None), getOutputOf = (\<lambda>x. x)\<rparr>
        0
        \<lparr>templateObj = VNode 0, partials = None,
           view = Some \<lparr>childViews = None, parentView = None\<rparr>\<rparr>
        ()
        \<lparr>arrays = [[VStr ''hi'']],
           nodes = [\<lparr>node_t = Some 7, node_e = Some ''DIV'', node_a = None, node_f = VArr 0,
                     node_r = None, node_root = False\<rparr>],
           widgets = [], templates = [], partialMaps = [[]], warnings = []\<rparr>
      = Inr (VArr 0, None)"
proof -
  let ?env = "\<lparr>ractiveAdaptor = (\<lambda>stk g ctx p v s. (g, v)), contextOf = (\<lambda>d. d),
           toHtmlString = (VUndefined, None), getOutputOf = (\<lambda>x. x)\<rparr>
        :: (val \<times> view option, unit, unit, val \<times> view option) collaborators"
  let ?vw = "\<lparr>childViews = None, parentView = None\<rparr>"
  let ?tpl = "\<lparr>templateObj = VNode 0, partials = None, view = Some ?vw\<rparr>"
  let ?nd = "\<lparr>node_t = Some 7, node_e = Some ''DIV'', node_a = None, node_f = VArr 0,
               node_r = None, node_root = False\<rparr>"
  let ?s = "\<lparr>arrays = [[VStr ''hi'']], nodes = [?nd], widgets = [], templates = [],
              partialMaps = [[]], warnings = []\<rparr>"
  have "view ?tpl = Some ?vw \<and> parentView ?vw = None \<and> templateObj ?tpl = VNode 0
      \<and> lookup (nodes ?s) 0 = Some ?nd"
    by (simp add: lookup_def)
  with toString_strips_wrapper_of_top_level_view [of ?tpl ?env 0 "()" ?s, THEN conjunct2,
      THEN conjunct1, rule_format, of ?vw 0 ?nd]
  show ?thesis
    by simp
qed

text \<open>
  Claim C6 as stated fails: a Template bound to a view that has a parent view renders its
  full graph, the node at address 0, not that node's children. The interpreter here
  returns the graph and the view it was given.
\<close>

theorem toString_full_graph_for_child_view_counterexample:
  "toString
      \<lparr>ractiveAdaptor = (\<lambda>stk g ctx p v s. (g, v)), contextOf = (\<lambda>d. d),
         toHtmlString = (VUndefined, None), getOutputOf = (\<lambda>x. x)\<rparr>
      0
      \<lparr>templateObj = VNode 0, partials = None,
         view = Some \<lparr>childViews = None, parentView = Some ''parentComponent''\<rparr>\<rparr>
      ()
      \<lparr>arrays = [[VStr ''hi'']],
         nodes = [\<lparr>node_t = Some 7, node_e = Some ''DIV'', node_a = None, node_f = VArr 0,
                   node_r = None, node_root = False\<rparr>],
         widgets = [], templates = [], partialMaps = [[]], warnings = []\<rparr>
    = Inr (VNode 0, None)"
  by (simp add: toString_def templateToRender_def render_def)

text \<open>
  Claim C10. Whatever the interpreter, the context and the builder are, \<open>toString\<close>
  calls the interpreter with no view (\<open>None\<close>, the \<open>null\<close> of the source), on the graph
  chosen by the first lines of \<open>toString\<close> (or the Template's graph when that is falsy)
  and on the Template's partials (or the registry). Two Templates with the same graph and
  partials for which that choice is the same give the same output, whatever views they
  are bound to.
\<close>

theorem toString_interprets_without_view:
  fixes env :: "('stack, 'ctx, 'data, 'out) collaborators"
  shows
  "(templateToRender s this = Inr g
      \<longrightarrow> toString env reg this data s =
            Inr (getOutputOf env (ractiveAdaptor env (toHtmlString env)
                   (if truthy g then g else templateObj this)
                   (contextOf env data) (case partials this of Some p \<Rightarrow> p | None \<Rightarrow> reg)
                   None s)))
   \<and> (templateObj this' = templateObj this \<and> partials this' = partials this
        \<and> templateToRender s this' = templateToRender s this
      \<longrightarrow> toString env reg this' data s = toString env reg this data s)"
  by (auto simp: toString_def render_def split: sum.splits)

theorem toString_interprets_without_view_witness:
  "templateToRender
      \<lparr>arrays = [[VStr ''hi'']],
         nodes = [\<lparr>node_t = Some 7, node_e = Some ''DIV'', node_a = None, node_f = VArr 0,
                   node_r = None, node_root = False\<rparr>],
         widgets = [], templates = [], partialMaps = [[]], warnings = []\<rparr>
      \<lparr>templateObj = VNode 0, partials = None,
         view = Some \<lparr>childViews = None, parentView = None\<rparr>\<rparr>
    = Inr (VArr 0)
   \<and> toString
        \<lparr>ractiveAdaptor = (\<lambda>stk g ctx p v s. (g, v)), contextOf = (\<lambda>d. d),
           toHtmlString = (VUndefined, None), getOutputOf = (\<lambda>x. x)\<rparr>
        0
        \<lparr>templateObj = VNode 0, partials = None,
           view = Some \<lparr>childViews = None, parentView = None\<rparr>\<rparr>
        ()
        \<lparr>arrays = [[VStr ''hi'']],
           nodes = [\<lparr>node_t = Some 7, node_e = Some ''DIV'', node_a = None, node_f = VArr 0,
                     node_r = None, node_root = False\<rparr>],
           widgets = [], templates = [], partialMaps = [[]], warnings = []\<rparr>
      = Inr (VArr 0, None)"
proof -
  let ?env = "\<lparr>ractiveAdaptor = (\<lambda>stk g ctx p v s. (g, v)), contextOf = (\<lambda>d. d),
           toHtmlString = (VUndefined, None), getOutputOf = (\<lambda>x. x)\<rparr>
        :: (val \<times> view option, unit, unit, val \<times> view option) collaborators"
  let ?tpl = "\<lparr>templateObj = VNode 0, partials = None,
                 view = Some \<lparr>childViews = None, parentView = None\<rparr>\<rparr>"
  let ?nd = "\<lparr>node_t = Some 7, node_e = Some ''DIV'', node_a = None, node_f = VArr 0,
               node_r = None, node_root = False\<rparr>"
  let ?s = "\<lparr>arrays = [[VStr ''hi'']], nodes = [?nd], widgets = [], templates = [],
              partialMaps = [[]], warnings = []\<rparr>"
  have h: "templateToRender ?s ?tpl = Inr (VArr 0)"
    by (simp add: templateToRender_def fieldF_def lookup_def)
  from toString_interprets_without_view [of ?s ?tpl "VArr 0" ?env 0 "()" ?tpl, THEN conjunct1] h
  show ?thesis
    by simp
qed


end
